theory Spec2Isabelle
  imports Main "HOL-Library.Word" "HOL-Library.Sublist" "HOL-Library.Multiset"
begin

unbundle bit_operations_syntax

section \<open>csv2excel: the table model of \<^verbatim>\<open>internal/file/file.go\<close>\<close>

text \<open>
  Go strings are byte sequences; \<^typ>\<open>string\<close> (a list of 8-bit characters) models them
  byte by byte. A \<^verbatim>\<open>rune\<close> is a 32-bit integer, an \<^verbatim>\<open>int64\<close> a 64-bit word read as a
  signed number, a \<^verbatim>\<open>float64\<close> its IEEE-754 binary64 bit pattern.
\<close>

type_synonym rune = "32 word"
type_synonym int64 = "64 word"

datatype float64 = Float64 (bits: "64 word")

text \<open>
  \<^verbatim>\<open>type ColumnType int\<close> with the three constants \<^verbatim>\<open>StringType = iota + 1\<close>,
  \<^verbatim>\<open>FloatType\<close>, \<^verbatim>\<open>IntegerType\<close>: the enumeration. The package assigns no other value
  of the underlying \<^verbatim>\<open>int\<close>, and none is modelled.
\<close>

datatype ColumnType = StringType | FloatType | IntegerType

record Column =
  Name :: string
  Type :: ColumnType

text \<open>
  A cell is an \<^verbatim>\<open>interface{}\<close>: \<^verbatim>\<open>Read\<close> stores strings, \<^verbatim>\<open>ConvertColumnTypes\<close> stores
  \<^verbatim>\<open>float64\<close> and \<^verbatim>\<open>int64\<close> values. The code only ever asks whether a cell is a string,
  so a cell of another dynamic type would behave as the two kinds of numbers do.

  Rows are values here. In the Go program a row is a slice that \<^verbatim>\<open>ConvertColumnTypes\<close>
  updates in place; \<^verbatim>\<open>Read\<close> allocates every row afresh, and \<^verbatim>\<open>Merge\<close> puts the rows of its
  inputs, as they are, into the merged table. A row that stands twice in a table is
  converted once and found converted the second time, with the result given here.
\<close>

datatype cell = Text string | Float float64 | Integer int64

record CSV =
  FilePath :: string
  Delimiter :: rune
  Headers :: "Column list"
  Records :: "cell list list"

text \<open>Every failure the two packages return as an \<^verbatim>\<open>error\<close> value.\<close>

datatype error =
    EmptyFilePath                   \<comment> \<open>"file path is empty, a valid file path is required"\<close>
  | SourceUnavailable string        \<comment> \<open>the error of \<^verbatim>\<open>os.Open\<close>\<close>
  | MalformedRecord string          \<comment> \<open>the error of \<^verbatim>\<open>csv.Reader.ReadAll\<close>\<close>
  | EmptySource string              \<comment> \<open>"no records found in %s"\<close>
  | InvalidInputFormat              \<comment> \<open>"invalid input file format. Please provide a CSV file"\<close>
  | AggregatedReadError "error list" \<comment> \<open>"encountered errors while reading files: %v"\<close>
  | NoValidSources                  \<comment> \<open>"no valid CSV files to merge"\<close>
  | NoInputTables                   \<comment> \<open>"no files to merge"\<close>
  | SchemaMismatch string string    \<comment> \<open>"inconsistent number of columns in either %s or %s"\<close>

subsection \<open>Construction with functional options\<close>

definition WithFilePath :: "string \<Rightarrow> CSV \<Rightarrow> CSV" where
  "WithFilePath filePath c = c\<lparr>FilePath := filePath\<rparr>"

definition WithDelimiter :: "rune \<Rightarrow> CSV \<Rightarrow> CSV" where
  "WithDelimiter delimiter c = c\<lparr>Delimiter := delimiter\<rparr>"

definition WithHeaders :: "Column list \<Rightarrow> CSV \<Rightarrow> CSV" where
  "WithHeaders columns c = c\<lparr>Headers := columns\<rparr>"

definition WithRecords :: "cell list list \<Rightarrow> CSV \<Rightarrow> CSV" where
  "WithRecords records c = c\<lparr>Records := records\<rparr>"

text \<open>\<^verbatim>\<open>New\<close> starts from the zero value \<^verbatim>\<open>&CSV{}\<close> and applies the options in order.\<close>

definition zeroCSV :: CSV where
  "zeroCSV = \<lparr>FilePath = [], Delimiter = 0, Headers = [], Records = []\<rparr>"

definition New :: "(CSV \<Rightarrow> CSV) list \<Rightarrow> CSV" where
  "New options = foldl (\<lambda>csv option. option csv) zeroCSV options"

subsection \<open>Read\<close>

text \<open>
  What \<^verbatim>\<open>os.Open\<close> followed by \<^verbatim>\<open>csv.Reader.ReadAll\<close> gives for a path and a delimiter
  is the environment's: the file cannot be opened, a record cannot be tokenized, or
  the records are returned (possibly none). In each case the file is closed again.
\<close>

datatype source = Unavailable string | Malformed string | Parsed "string list list"

type_synonym world = "string \<Rightarrow> rune \<Rightarrow> source"

definition Read :: "world \<Rightarrow> CSV \<Rightarrow> error + CSV" where
  "Read w c =
     (if FilePath c = [] then Inl EmptyFilePath
      else case w (FilePath c) (Delimiter c) of
        Unavailable err \<Rightarrow> Inl (SourceUnavailable err)
      | Malformed err \<Rightarrow> Inl (MalformedRecord err)
      | Parsed records \<Rightarrow>
          (case records of
             [] \<Rightarrow> Inl (EmptySource (FilePath c))
           | header # rest \<Rightarrow>
               (let c1 = c\<lparr>Headers :=
                           Headers c @ map (\<lambda>column. \<lparr>Name = column, Type = StringType\<rparr>) header\<rparr>
                in Inr (if 1 < length records
                        then c1\<lparr>Records := map (map Text) rest\<rparr>
                        else c1))))"

subsection \<open>Merge\<close>

text \<open>
  \<^verbatim>\<open>Merge\<close> takes pointers to tables; the tables are given here, so no pointer is
  \<^verbatim>\<open>nil\<close>. \<open>mismatch\<close> is the first table whose header count differs from
  \<^verbatim>\<open>columnCount\<close>, as the loop over \<^verbatim>\<open>files[1:]\<close> finds it.
\<close>

fun mismatch :: "nat \<Rightarrow> CSV list \<Rightarrow> CSV option" where
  "mismatch columnCount [] = None"
| "mismatch columnCount (file # files) =
     (if columnCount \<noteq> length (Headers file) then Some file
      else mismatch columnCount files)"

fun Merge :: "CSV list \<Rightarrow> error + CSV" where
  "Merge [] = Inl NoInputTables"
| "Merge (first # others) =
     (case mismatch (length (Headers first)) others of
        Some file \<Rightarrow> Inl (SchemaMismatch (FilePath file) (FilePath first))
      | None \<Rightarrow>
          Inr (New [WithHeaders (Headers first),
                    WithDelimiter (Delimiter first),
                    WithRecords (foldl (\<lambda>mergedFiles file. mergedFiles @ Records file)
                                       [] (first # others))]))"

section \<open>The parsers of \<^verbatim>\<open>strconv\<close>\<close>

text \<open>
  \<^verbatim>\<open>strconv.ParseInt\<close> and \<^verbatim>\<open>strconv.ParseFloat\<close> belong to the Go standard library, not
  to the repository; the definitions of this section follow the library's \<^verbatim>\<open>atoi.go\<close> and
  \<^verbatim>\<open>atof.go\<close>. The package \<^verbatim>\<open>file\<close> only tests their error for \<^verbatim>\<open>nil\<close> and keeps the value,
  so a parser returns \<open>Some\<close> value when the error is \<^verbatim>\<open>nil\<close> and \<open>None\<close> when it is a
  syntax or a range error.
\<close>

definition byte :: "char \<Rightarrow> nat" where
  "byte c = of_char c"

definition isDigit :: "char \<Rightarrow> bool" where
  "isDigit c \<longleftrightarrow> byte (CHR ''0'') \<le> byte c \<and> byte c \<le> byte (CHR ''9'')"

definition digit :: "char \<Rightarrow> nat" where
  "digit c = byte c - byte (CHR ''0'')"

text \<open>\<^verbatim>\<open>lower(c)\<close> is \<^verbatim>\<open>c | ('x' - 'X')\<close>.\<close>

definition lower :: "char \<Rightarrow> nat" where
  "lower c = byte c OR 32"

subsection \<open>\<^verbatim>\<open>ParseInt(s, 10, 64)\<close>\<close>

definition maxUint64 :: nat where
  "maxUint64 = 2 ^ 64 - 1"

text \<open>
  The digit loop of \<^verbatim>\<open>ParseUint(s, 10, 64)\<close>: \<^verbatim>\<open>cutoff\<close> is \<^verbatim>\<open>maxUint64/10 + 1\<close>; a
  character that is no decimal digit is a syntax error, an overflow of \<^verbatim>\<open>n*10\<close> or of
  \<^verbatim>\<open>n*10 + d\<close> a range error. Base 10 admits no underscore.
\<close>

fun parseUintLoop :: "nat \<Rightarrow> string \<Rightarrow> nat option" where
  "parseUintLoop n [] = Some n"
| "parseUintLoop n (c # cs) =
     (if \<not> isDigit c then None
      else if n \<ge> maxUint64 div 10 + 1 then None
      else if n * 10 + digit c > maxUint64 then None
      else parseUintLoop (n * 10 + digit c) cs)"

definition ParseUint :: "string \<Rightarrow> nat option" where
  "ParseUint s = (if s = [] then None else parseUintLoop 0 s)"

text \<open>
  \<^verbatim>\<open>ParseInt\<close> picks off one leading sign, parses the rest unsigned and checks the range
  against \<^verbatim>\<open>cutoff = 1 << 63\<close>.
\<close>

definition ParseInt :: "string \<Rightarrow> int64 option" where
  "ParseInt s =
     (case s of
        [] \<Rightarrow> None
      | c # cs \<Rightarrow>
          (let neg = (c = CHR ''-'');
               s1 = (if c = CHR ''+'' \<or> c = CHR ''-'' then cs else s)
           in case ParseUint s1 of
                None \<Rightarrow> None
              | Some un \<Rightarrow>
                  if \<not> neg \<and> un \<ge> 2 ^ 63 then None
                  else if neg \<and> un > 2 ^ 63 then None
                  else Some (if neg then - word_of_nat un else word_of_nat un)))"

subsection \<open>\<^verbatim>\<open>ParseFloat(s, 64)\<close>\<close>

text \<open>
  Rounding a positive rational \<open>num / den\<close> to binary64, to nearest with ties to even.
  Too large a value is the range error; a value too small becomes a subnormal or zero
  without error.
\<close>

fun bitlen :: "nat \<Rightarrow> nat" where
  "bitlen n = (if n = 0 then 0 else Suc (bitlen (n div 2)))"

declare bitlen.simps [simp del]

lemma bitlen_0 [simp]: "bitlen 0 = 0"
  by (subst bitlen.simps) simp

lemma bitlen_pos [simp]: "n \<noteq> 0 \<Longrightarrow> bitlen n = Suc (bitlen (n div 2))"
  by (subst bitlen.simps) simp

definition floorLog2 :: "nat \<Rightarrow> nat \<Rightarrow> int" where
  "floorLog2 num den =
     (let k = int (bitlen num) - int (bitlen den)
      in if (if k \<ge> 0 then num \<ge> den * 2 ^ nat k else num * 2 ^ nat (- k) \<ge> den)
         then k else k - 1)"

definition packFloat64 :: "bool \<Rightarrow> nat \<Rightarrow> nat \<Rightarrow> float64" where
  "packFloat64 neg biased frac =
     Float64 (push_bit 63 (if neg then 1 else 0) OR push_bit 52 (word_of_nat biased)
              OR word_of_nat frac)"

text \<open>The integer nearest to \<open>n / d\<close>, the even one of two equally near.\<close>

definition roundHalfEven :: "nat \<Rightarrow> nat \<Rightarrow> nat" where
  "roundHalfEven n d =
     (let q = n div d; r = n mod d
      in if 2 * r > d \<or> (2 * r = d \<and> odd q) then q + 1 else q)"

text \<open>
  The value \<open>m * 2 ^ (e - 52)\<close> with \<open>m \<le> 2 ^ 53\<close> and \<open>e \<ge> - 1022\<close> as a binary64; a
  mantissa rounded up to \<open>2 ^ 53\<close> moves to the next exponent.
\<close>

definition finishFloat64 :: "bool \<Rightarrow> int \<Rightarrow> nat \<Rightarrow> float64 option" where
  "finishFloat64 neg e m =
     (let e2 = (if m = 2 ^ 53 then e + 1 else e);
          m2 = (if m = 2 ^ 53 then 2 ^ 52 else m)
      in if e2 > 1023 then None
         else if m2 < 2 ^ 52 then Some (packFloat64 neg 0 m2)
         else Some (packFloat64 neg (nat (e2 + 1023)) (m2 - 2 ^ 52)))"

definition roundFloat64 :: "bool \<Rightarrow> nat \<Rightarrow> nat \<Rightarrow> float64 option" where
  "roundFloat64 neg num den =
     (if num = 0 then Some (packFloat64 neg 0 0)
      else
        let e = max (floorLog2 num den) (- 1022);
            u = e - 52
        in finishFloat64 neg e
             (if u \<ge> 0 then roundHalfEven num (den * 2 ^ nat u)
              else roundHalfEven (num * 2 ^ nat (- u)) den))"

text \<open>
  \<^verbatim>\<open>special\<close>: the texts \<^verbatim>\<open>inf\<close> and \<^verbatim>\<open>infinity\<close> with an optional sign and \<^verbatim>\<open>nan\<close>
  without one, in any letter case. It returns the value and the number of bytes read.
\<close>

definition toLowerASCII :: "char \<Rightarrow> char" where
  "toLowerASCII c =
     (if byte (CHR ''A'') \<le> byte c \<and> byte c \<le> byte (CHR ''Z'') then char_of (byte c + 32) else c)"

fun commonPrefixLenIgnoreCase :: "string \<Rightarrow> string \<Rightarrow> nat" where
  "commonPrefixLenIgnoreCase (c # s) (p # pre) =
     (if toLowerASCII c = p then Suc (commonPrefixLenIgnoreCase s pre) else 0)"
| "commonPrefixLenIgnoreCase s pre = 0"

definition infinityLen :: "string \<Rightarrow> nat option" where
  "infinityLen s =
     (let n = commonPrefixLenIgnoreCase s ''infinity'';
          n' = (if 3 < n \<and> n < 8 then 3 else n)
      in if n' = 3 \<or> n' = 8 then Some n' else None)"

definition special :: "string \<Rightarrow> (float64 \<times> nat) option" where
  "special s =
     (case s of
        [] \<Rightarrow> None
      | c # cs \<Rightarrow>
          if c = CHR ''+'' \<or> c = CHR ''-'' then
            map_option (\<lambda>n. (packFloat64 (c = CHR ''-'') 2047 0, 1 + n)) (infinityLen cs)
          else if c = CHR ''i'' \<or> c = CHR ''I'' then
            map_option (\<lambda>n. (packFloat64 False 2047 0, n)) (infinityLen s)
          else if c = CHR ''n'' \<or> c = CHR ''N'' then
            (if commonPrefixLenIgnoreCase s ''nan'' = 3
             then Some (Float64 0x7FF8000000000001, 3) else None)
          else None)"

text \<open>
  \<^verbatim>\<open>underscoreOK\<close>: an underscore stands between two digits, or between a base prefix
  and a digit. \<^verbatim>\<open>saw\<close> is the kind of the last character read.
\<close>

datatype saw = SawStart | SawDigit | SawUnderscore | SawOther

fun underscoreLoop :: "bool \<Rightarrow> saw \<Rightarrow> string \<Rightarrow> bool" where
  "underscoreLoop hex saw [] = (saw \<noteq> SawUnderscore)"
| "underscoreLoop hex saw (c # cs) =
     (if isDigit c \<or> (hex \<and> byte (CHR ''a'') \<le> lower c \<and> lower c \<le> byte (CHR ''f''))
      then underscoreLoop hex SawDigit cs
      else if c = CHR ''_''
      then (if saw \<noteq> SawDigit then False else underscoreLoop hex SawUnderscore cs)
      else if saw = SawUnderscore then False
      else underscoreLoop hex SawOther cs)"

definition stripSign :: "string \<Rightarrow> string" where
  "stripSign s = (case s of [] \<Rightarrow> [] | c # cs \<Rightarrow> if c = CHR ''-'' \<or> c = CHR ''+'' then cs else s)"

definition underscoreOK :: "string \<Rightarrow> bool" where
  "underscoreOK s =
     (case stripSign s of
        c0 # c1 # cs \<Rightarrow>
          if c0 = CHR ''0'' \<and> (lower c1 = byte (CHR ''b'') \<or> lower c1 = byte (CHR ''o'')
                               \<or> lower c1 = byte (CHR ''x''))
          then underscoreLoop (lower c1 = byte (CHR ''x'')) SawDigit cs
          else underscoreLoop False SawStart (c0 # c1 # cs)
      | s1 \<Rightarrow> underscoreLoop False SawStart s1)"

text \<open>
  \<^verbatim>\<open>readFloat\<close>: the mantissa loop. The source keeps the first 19 decimal (16
  hexadecimal) digits in a \<^verbatim>\<open>uint64\<close> with a flag for the digits cut off and converts
  from the text again where that matters; here \<open>mantissa\<close> holds every digit.
\<close>

record floatScan =
  sawdot :: bool
  sawdigits :: bool
  nd :: nat
  dp :: int
  mantissa :: nat
  underscores :: bool

fun readDigits :: "nat \<Rightarrow> floatScan \<Rightarrow> string \<Rightarrow> floatScan \<times> string" where
  "readDigits base m [] = (m, [])"
| "readDigits base m (c # cs) =
     (if c = CHR ''_'' then readDigits base (m\<lparr>underscores := True\<rparr>) cs
      else if c = CHR ''.'' then
        (if sawdot m then (m, c # cs)
         else readDigits base (m\<lparr>sawdot := True, dp := int (nd m)\<rparr>) cs)
      else if isDigit c then
        (if c = CHR ''0'' \<and> nd m = 0
         then readDigits base (m\<lparr>sawdigits := True, dp := dp m - 1\<rparr>) cs
         else readDigits base
                (m\<lparr>sawdigits := True, nd := nd m + 1,
                   mantissa := mantissa m * base + digit c\<rparr>) cs)
      else if base = 16 \<and> byte (CHR ''a'') \<le> lower c \<and> lower c \<le> byte (CHR ''f'') then
        readDigits base
          (m\<lparr>sawdigits := True, nd := nd m + 1,
             mantissa := mantissa m * 16 + (lower c - byte (CHR ''a'') + 10)\<rparr>) cs
      else (m, c # cs))"

text \<open>The exponent's digits: \<^verbatim>\<open>if e < 10000 { e = e*10 + int(s[i]) - '0' }\<close>.\<close>

fun readExp :: "nat \<Rightarrow> bool \<Rightarrow> string \<Rightarrow> nat \<times> bool \<times> string" where
  "readExp e us [] = (e, us, [])"
| "readExp e us (c # cs) =
     (if c = CHR ''_'' then readExp e True cs
      else if isDigit c then readExp (if e < 10000 then e * 10 + digit c else e) us cs
      else (e, us, c # cs))"

text \<open>
  The optional exponent after the mantissa: \<open>None\<close> where \<^verbatim>\<open>readFloat\<close> returns without
  \<^verbatim>\<open>ok\<close>, otherwise the signed exponent, whether an underscore was read, and the text
  left unread. A hexadecimal mantissa must have an exponent.
\<close>

definition readExponent :: "bool \<Rightarrow> string \<Rightarrow> (int \<times> bool \<times> string) option" where
  "readExponent hex s =
     (case s of
        [] \<Rightarrow> if hex then None else Some (0, False, s)
      | c # cs \<Rightarrow>
          if lower c = byte (if hex then CHR ''p'' else CHR ''e'') then
            (case cs of
               [] \<Rightarrow> None
             | c1 # cs1 \<Rightarrow>
                 (let esign = (if c1 = CHR ''-'' then - 1 else 1);
                      ds = (if c1 = CHR ''+'' \<or> c1 = CHR ''-'' then cs1 else cs)
                  in case ds of
                       [] \<Rightarrow> None
                     | d # _ \<Rightarrow>
                         if \<not> isDigit d then None
                         else (case readExp 0 False ds of
                                 (e, us, rest) \<Rightarrow> Some (int e * esign, us, rest))))
          else if hex then None
          else Some (0, False, s))"

text \<open>
  \<^verbatim>\<open>readFloat\<close> returns, when \<^verbatim>\<open>ok\<close>: the sign, whether the text is hexadecimal, the
  mantissa, the exponent (of 2 for a hexadecimal text, of 10 otherwise) and the text
  left unread.
\<close>

definition readFloat :: "string \<Rightarrow> (bool \<times> bool \<times> nat \<times> int \<times> string) option" where
  "readFloat s =
     (case s of
        [] \<Rightarrow> None
      | c # _ \<Rightarrow>
          (let neg = (c = CHR ''-'');
               s1 = stripSign s;
               hex = (2 < length s1 \<and> s1 ! 0 = CHR ''0'' \<and> lower (s1 ! 1) = byte (CHR ''x''));
               (m, s2) = readDigits (if hex then 16 else 10)
                           \<lparr>sawdot = False, sawdigits = False, nd = 0, dp = 0, mantissa = 0,
                            underscores = False\<rparr>
                           (if hex then drop 2 s1 else s1)
           in if \<not> sawdigits m then None
              else
                (let dp1 = (if sawdot m then dp m else int (nd m));
                     dp2 = (if hex then dp1 * 4 else dp1);
                     ndMant = (if hex then int (nd m) * 4 else int (nd m))
                 in case readExponent hex s2 of
                      None \<Rightarrow> None
                    | Some (e, us, rest) \<Rightarrow>
                        if (underscores m \<or> us)
                           \<and> \<not> underscoreOK (take (length s - length rest) s)
                        then None
                        else Some (neg, hex, mantissa m,
                                   if mantissa m \<noteq> 0 then dp2 + e - ndMant else 0, rest))))"

text \<open>
  \<^verbatim>\<open>ParseFloat\<close>: the whole text must be read; the value is the binary64 nearest to
  \<open>mantissa * 10 ^ exp\<close> (\<open>mantissa * 2 ^ exp\<close> for a hexadecimal text).
\<close>

definition ParseFloat :: "string \<Rightarrow> float64 option" where
  "ParseFloat s =
     (case special s of
        Some (val, n) \<Rightarrow> if n = length s then Some val else None
      | None \<Rightarrow>
          (case readFloat s of
             None \<Rightarrow> None
           | Some (neg, hex, mant, exp, rest) \<Rightarrow>
               if rest \<noteq> [] then None
               else (let b = (if hex then 2 else 10)
                     in if exp \<ge> 0 then roundFloat64 neg (mant * b ^ nat exp) 1
                        else roundFloat64 neg mant (b ^ nat (- exp)))))"

section \<open>Type inference and conversion\<close>

text \<open>
  An index beyond the end of a row is a run-time panic of the Go program: the functions
  of this section return \<open>None\<close> for it.
\<close>

definition defaultTypeInferanceRows :: nat where
  "defaultTypeInferanceRows = 20"

text \<open>
  The inner loop of \<^verbatim>\<open>inferColumnTypes\<close> for column \<open>i\<close> over the sampled rows, with
  the two counters.
\<close>

fun countColumn :: "nat \<Rightarrow> cell list list \<Rightarrow> nat \<Rightarrow> nat \<Rightarrow> (nat \<times> nat) option" where
  "countColumn i [] floatCount intCount = Some (floatCount, intCount)"
| "countColumn i (row # rows) floatCount intCount =
     (if i \<ge> length row then None
      else case row ! i of
             Text stringValue \<Rightarrow>
               if ParseFloat stringValue \<noteq> None
               then countColumn i rows (floatCount + 1) intCount
               else if ParseInt stringValue \<noteq> None
               then countColumn i rows floatCount (intCount + 1)
               else countColumn i rows floatCount intCount
           | _ \<Rightarrow> countColumn i rows floatCount intCount)"

text \<open>The outer loop, over the headers from index \<open>i\<close> on.\<close>

fun inferHeaders :: "nat \<Rightarrow> cell list list \<Rightarrow> nat \<Rightarrow> Column list \<Rightarrow> Column list option" where
  "inferHeaders rangeToCheck sample i [] = Some []"
| "inferHeaders rangeToCheck sample i (h # hs) =
     (case countColumn i sample 0 0 of
        None \<Rightarrow> None
      | Some (floatCount, intCount) \<Rightarrow>
          (case inferHeaders rangeToCheck sample (i + 1) hs of
             None \<Rightarrow> None
           | Some hs' \<Rightarrow>
               Some ((if floatCount = rangeToCheck then h\<lparr>Type := FloatType\<rparr>
                      else if intCount = rangeToCheck then h\<lparr>Type := IntegerType\<rparr>
                      else h) # hs')))"

definition inferColumnTypes :: "CSV \<Rightarrow> CSV option" where
  "inferColumnTypes c =
     (let rangeToCheck = min defaultTypeInferanceRows (length (Records c))
      in map_option (\<lambda>hs. c\<lparr>Headers := hs\<rparr>)
           (inferHeaders rangeToCheck (take rangeToCheck (Records c)) 0 (Headers c)))"

text \<open>The \<^verbatim>\<open>switch\<close> of \<^verbatim>\<open>ConvertColumnTypes\<close> on one cell.\<close>

definition convertCell :: "ColumnType \<Rightarrow> cell \<Rightarrow> cell" where
  "convertCell t v =
     (case v of
        Text stringValue \<Rightarrow>
          (case t of
             FloatType \<Rightarrow>
               (case ParseFloat stringValue of Some parsedValue \<Rightarrow> Float parsedValue | None \<Rightarrow> v)
           | IntegerType \<Rightarrow>
               (case ParseInt stringValue of Some parsedValue \<Rightarrow> Integer parsedValue | None \<Rightarrow> v)
           | StringType \<Rightarrow> v)
      | _ \<Rightarrow> v)"

fun convertRecord :: "nat \<Rightarrow> Column list \<Rightarrow> cell list \<Rightarrow> cell list option" where
  "convertRecord i [] row = Some row"
| "convertRecord i (h # hs) row =
     (if i \<ge> length row then None
      else convertRecord (i + 1) hs (row[i := convertCell (Type h) (row ! i)]))"

fun convertRecords :: "Column list \<Rightarrow> cell list list \<Rightarrow> cell list list option" where
  "convertRecords hs [] = Some []"
| "convertRecords hs (row # rows) =
     (case convertRecord 0 hs row of
        None \<Rightarrow> None
      | Some row' \<Rightarrow>
          (case convertRecords hs rows of
             None \<Rightarrow> None
           | Some rows' \<Rightarrow> Some (row' # rows')))"

definition ConvertColumnTypes :: "CSV \<Rightarrow> CSV option" where
  "ConvertColumnTypes c =
     (case inferColumnTypes c of
        None \<Rightarrow> None
      | Some c1 \<Rightarrow>
          map_option (\<lambda>rows. c1\<lparr>Records := rows\<rparr>) (convertRecords (Headers c1) (Records c1)))"

section \<open>The ingestion coordinator \<^verbatim>\<open>processFiles\<close>\<close>

subsection \<open>\<^verbatim>\<open>strings.TrimSpace\<close>\<close>

text \<open>
  The UTF-8 encodings of the runes \<^verbatim>\<open>unicode.IsSpace\<close> accepts: tab, line feed, vertical
  tab, form feed, carriage return, space, U+0085, U+00A0, U+1680, U+2000 to U+200A,
  U+2028, U+2029, U+202F, U+205F and U+3000.
\<close>

definition spaceEncodings :: "string list" where
  "spaceEncodings =
     [[CHR 0x09], [CHR 0x0A], [CHR 0x0B], [CHR 0x0C], [CHR 0x0D], [CHR 0x20],
      [CHR 0xC2, CHR 0x85], [CHR 0xC2, CHR 0xA0], [CHR 0xE1, CHR 0x9A, CHR 0x80],
      [CHR 0xE2, CHR 0x80, CHR 0x80], [CHR 0xE2, CHR 0x80, CHR 0x81],
      [CHR 0xE2, CHR 0x80, CHR 0x82], [CHR 0xE2, CHR 0x80, CHR 0x83],
      [CHR 0xE2, CHR 0x80, CHR 0x84], [CHR 0xE2, CHR 0x80, CHR 0x85],
      [CHR 0xE2, CHR 0x80, CHR 0x86], [CHR 0xE2, CHR 0x80, CHR 0x87],
      [CHR 0xE2, CHR 0x80, CHR 0x88], [CHR 0xE2, CHR 0x80, CHR 0x89],
      [CHR 0xE2, CHR 0x80, CHR 0x8A], [CHR 0xE2, CHR 0x80, CHR 0xA8],
      [CHR 0xE2, CHR 0x80, CHR 0xA9], [CHR 0xE2, CHR 0x80, CHR 0xAF],
      [CHR 0xE2, CHR 0x81, CHR 0x9F], [CHR 0xE3, CHR 0x80, CHR 0x80]]"

text \<open>The number of bytes of the white-space rune a text starts (ends) with, or 0.\<close>

definition leadingSpace :: "string \<Rightarrow> nat" where
  "leadingSpace s = (case find (\<lambda>e. prefix e s) spaceEncodings of None \<Rightarrow> 0 | Some e \<Rightarrow> length e)"

definition trailingSpace :: "string \<Rightarrow> nat" where
  "trailingSpace s = (case find (\<lambda>e. suffix e s) spaceEncodings of None \<Rightarrow> 0 | Some e \<Rightarrow> length e)"

lemma leadingSpace_Nil: "leadingSpace [] = 0"
  by (simp add: leadingSpace_def spaceEncodings_def)

lemma trailingSpace_Nil: "trailingSpace [] = 0"
  by (simp add: trailingSpace_def spaceEncodings_def)

function TrimLeftSpace :: "string \<Rightarrow> string" where
  "TrimLeftSpace s = (if leadingSpace s = 0 then s else TrimLeftSpace (drop (leadingSpace s) s))"
  by pat_completeness auto
termination
proof (relation "measure length")
  show "wf (measure length)" by simp
next
  fix s :: string
  assume "leadingSpace s \<noteq> 0"
  moreover from this have "s \<noteq> []" using leadingSpace_Nil by auto
  ultimately show "(drop (leadingSpace s) s, s) \<in> measure length" by simp
qed

function TrimRightSpace :: "string \<Rightarrow> string" where
  "TrimRightSpace s =
     (if trailingSpace s = 0 then s else TrimRightSpace (take (length s - trailingSpace s) s))"
  by pat_completeness auto
termination
proof (relation "measure length")
  show "wf (measure length)" by simp
next
  fix s :: string
  assume "trailingSpace s \<noteq> 0"
  moreover from this have "s \<noteq> []" using trailingSpace_Nil by auto
  ultimately show "(take (length s - trailingSpace s) s, s) \<in> measure length" by simp
qed

definition TrimSpace :: "string \<Rightarrow> string" where
  "TrimSpace s = TrimRightSpace (TrimLeftSpace s)"

declare TrimLeftSpace.simps [simp del] TrimRightSpace.simps [simp del]

subsection \<open>The fan-out loop\<close>

text \<open>
  The loop over \<^verbatim>\<open>filePaths\<close> trims each path, returns at the first one without the
  suffix \<^verbatim>\<open>.csv\<close>, and otherwise starts a worker (a goroutine) for it. \<open>started\<close> lists
  the paths of the workers started so far. A worker opens and reads its source and
  sends the outcome; when the loop returns early, nobody receives, and the workers
  started before stay blocked on their send.
\<close>

fun launch :: "string list \<Rightarrow> string list \<Rightarrow> string list \<times> error option" where
  "launch [] started = (started, None)"
| "launch (filePath # filePaths) started =
     (if \<not> suffix ''.csv'' (TrimSpace filePath) then (started, Some InvalidInputFormat)
      else launch filePaths (started @ [TrimSpace filePath]))"

text \<open>What one worker sends on the result channel.\<close>

definition worker :: "world \<Rightarrow> rune \<Rightarrow> string \<Rightarrow> error + CSV" where
  "worker w delimiter filePath = Read w (New [WithFilePath filePath, WithDelimiter delimiter])"

subsection \<open>The order of arrival on the result channel\<close>

text \<open>
  Every worker sends exactly one result on the unbuffered channel, and the coordinator
  receives until the channel is closed, after the last worker is done. Which pending
  worker is received next is the scheduler's choice: the schedule \<open>k # ks\<close> picks the
  pending result number \<open>k mod n\<close> of the \<open>n\<close> pending ones (the empty schedule takes
  them in the order the workers were started).
\<close>

fun arrival :: "nat list \<Rightarrow> 'a list \<Rightarrow> 'a list" where
  "arrival ks [] = []"
| "arrival [] (x # xs) = x # xs"
| "arrival (k # ks) (x # xs) =
     (let j = k mod length (x # xs)
      in (x # xs) ! j # arrival ks (take j (x # xs) @ drop (Suc j) (x # xs)))"

text \<open>The receiving loop: errors and files, each in order of arrival.\<close>

fun drain :: "(error + CSV) list \<Rightarrow> error list \<Rightarrow> CSV list \<Rightarrow> error list \<times> CSV list" where
  "drain [] errors files = (errors, files)"
| "drain (Inl err # results) errors files = drain results (errors @ [err]) files"
| "drain (Inr file # results) errors files = drain results errors (files @ [file])"

text \<open>
  What a call does: the workers it started, the tables it handed to \<^verbatim>\<open>Merge\<close> (\<open>None\<close>
  when \<^verbatim>\<open>Merge\<close> is not called), and what it returns.
\<close>

record outcome =
  started :: "string list"
  handed :: "CSV list option"
  result :: "error + CSV"

definition processFiles :: "world \<Rightarrow> nat list \<Rightarrow> string list \<Rightarrow> rune \<Rightarrow> outcome" where
  "processFiles w schedule filePaths delimiter =
     (case launch filePaths [] of
        (workers, Some err) \<Rightarrow> \<lparr>started = workers, handed = None, result = Inl err\<rparr>
      | (workers, None) \<Rightarrow>
          (case drain (arrival schedule (map (worker w delimiter) workers)) [] [] of
             (errors, files) \<Rightarrow>
               if length errors > 0
               then \<lparr>started = workers, handed = None, result = Inl (AggregatedReadError errors)\<rparr>
               else if length files = 0
               then \<lparr>started = workers, handed = None, result = Inl NoValidSources\<rparr>
               else \<lparr>started = workers, handed = Some files, result = Merge files\<rparr>))"

section \<open>Notions for the proofs\<close>

text \<open>
  A cell that counts for \<^verbatim>\<open>floatCount\<close>, one that counts for \<^verbatim>\<open>intCount\<close>, the cells of
  column \<open>i\<close>, the two counts over some rows, the decision at the end of the column
  loop, and rows of at least \<open>n\<close> cells each.
\<close>

definition floatText :: "cell \<Rightarrow> bool" where
  "floatText v = (case v of Text s \<Rightarrow> ParseFloat s \<noteq> None | _ \<Rightarrow> False)"

definition intText :: "cell \<Rightarrow> bool" where
  "intText v = (case v of Text s \<Rightarrow> ParseFloat s = None \<and> ParseInt s \<noteq> None | _ \<Rightarrow> False)"

definition column :: "nat \<Rightarrow> cell list list \<Rightarrow> cell list" where
  "column i rows = map (\<lambda>row. row ! i) rows"

definition floatCount :: "nat \<Rightarrow> cell list list \<Rightarrow> nat" where
  "floatCount i rows = length (filter floatText (column i rows))"

definition intCount :: "nat \<Rightarrow> cell list list \<Rightarrow> nat" where
  "intCount i rows = length (filter intText (column i rows))"

definition decide :: "nat \<Rightarrow> nat \<Rightarrow> nat \<Rightarrow> Column \<Rightarrow> Column" where
  "decide rangeToCheck fc ic h =
     (if fc = rangeToCheck then h\<lparr>Type := FloatType\<rparr>
      else if ic = rangeToCheck then h\<lparr>Type := IntegerType\<rparr>
      else h)"

definition wide :: "nat \<Rightarrow> cell list list \<Rightarrow> bool" where
  "wide n rows = list_all (\<lambda>row. n \<le> length row) rows"

text \<open>
  A row after the conversion loop of \<^verbatim>\<open>ConvertColumnTypes\<close>, when it has a cell for every
  header: the cells under the headers converted, the others as they were.
\<close>

definition convertedRow :: "Column list \<Rightarrow> cell list \<Rightarrow> cell list" where
  "convertedRow hs row =
     map (\<lambda>j. if j < length hs then convertCell (Type (hs ! j)) (row ! j) else row ! j)
       [0..<length row]"

section \<open>Example sources\<close>

text \<open>
  A file system with one file, \<^verbatim>\<open>h.csv\<close>, holding the single record \<^verbatim>\<open>a,b\<close>; read with
  another delimiter than the comma, or under another name, it yields no record.
\<close>

definition headerOnly :: world where
  "headerOnly p d = (if p = ''h.csv'' \<and> d = 44 then Parsed [[''a'', ''b'']] else Parsed [])"

text \<open>
  A file system with the two files \<^verbatim>\<open>a.csv\<close> and \<^verbatim>\<open>b.csv\<close>, each a header line and one
  data line; no other file can be opened.
\<close>

definition twoFiles :: world where
  "twoFiles p d =
     (if p = ''a.csv'' then Parsed [[''h''], [''1'']]
      else if p = ''b.csv'' then Parsed [[''h''], [''2'']]
      else Unavailable (''open '' @ p @ '': no such file or directory''))"

section \<open>Merge: results\<close>

lemma mismatch_None: "mismatch n fs = None \<longleftrightarrow> (\<forall>f \<in> set fs. length (Headers f) = n)"
  by (induction fs) auto

lemma mismatch_Some:
  "mismatch n fs = Some f \<Longrightarrow> f \<in> set fs \<and> length (Headers f) \<noteq> n"
  by (induction fs) (auto split: if_splits)

lemma foldl_append_Records:
  "foldl (\<lambda>acc file. acc @ Records file) acc fs = acc @ concat (map Records fs)"
  by (induction fs arbitrary: acc) auto

lemma Merge_Inr:
  "\<forall>f \<in> set others. length (Headers f) = length (Headers first) \<Longrightarrow>
   Merge (first # others) =
     Inr \<lparr>FilePath = [], Delimiter = Delimiter first, Headers = Headers first,
          Records = concat (map Records (first # others))\<rparr>"
  by (simp add: mismatch_None [THEN iffD2] foldl_append_Records New_def zeroCSV_def
      WithHeaders_def WithDelimiter_def WithRecords_def)

text \<open>
  Claim C7. For a non-empty sequence of tables whose header counts all equal the first
  table's, \<^verbatim>\<open>Merge\<close> succeeds; the result has the first table's headers and delimiter
  (and an empty file path), and its rows are the rows of the tables one after the other
  in input order, each table's rows in their own order, none dropped or changed.
\<close>

theorem Merge_concatenates:
  assumes "files \<noteq> []"
    and "\<forall>f \<in> set files. length (Headers f) = length (Headers (hd files))"
  shows "Merge files =
     Inr \<lparr>FilePath = [], Delimiter = Delimiter (hd files), Headers = Headers (hd files),
          Records = concat (map Records files)\<rparr>"
proof (cases files)
  case Nil
  with assms(1) show ?thesis by simp
next
  case (Cons first others)
  with assms(2) have "\<forall>f \<in> set others. length (Headers f) = length (Headers first)"
    by simp
  then show ?thesis unfolding Cons list.sel by (rule Merge_Inr)
qed

theorem Merge_concatenates_witness:
  "Merge [\<lparr>FilePath = ''one.csv'', Delimiter = 44,
            Headers = [\<lparr>Name = ''h1'', Type = StringType\<rparr>, \<lparr>Name = ''h2'', Type = StringType\<rparr>],
            Records = [[Text ''1'', Text ''2'']]\<rparr>,
          \<lparr>FilePath = ''two.csv'', Delimiter = 59,
            Headers = [\<lparr>Name = ''x'', Type = FloatType\<rparr>, \<lparr>Name = ''y'', Type = StringType\<rparr>],
            Records = [[Text ''3'', Text ''4''], [Text ''1'', Text ''2'']]\<rparr>]
   = Inr \<lparr>FilePath = [], Delimiter = 44,
          Headers = [\<lparr>Name = ''h1'', Type = StringType\<rparr>, \<lparr>Name = ''h2'', Type = StringType\<rparr>],
          Records = [[Text ''1'', Text ''2''], [Text ''3'', Text ''4''], [Text ''1'', Text ''2'']]\<rparr>"
  using Merge_concatenates [of "[\<lparr>FilePath = ''one.csv'', Delimiter = 44,
            Headers = [\<lparr>Name = ''h1'', Type = StringType\<rparr>, \<lparr>Name = ''h2'', Type = StringType\<rparr>],
            Records = [[Text ''1'', Text ''2'']]\<rparr>,
          \<lparr>FilePath = ''two.csv'', Delimiter = 59,
            Headers = [\<lparr>Name = ''x'', Type = FloatType\<rparr>, \<lparr>Name = ''y'', Type = StringType\<rparr>],
            Records = [[Text ''3'', Text ''4''], [Text ''1'', Text ''2'']]\<rparr>]"]
  by simp

lemma Merge_isl:
  "isl (Merge files) \<longleftrightarrow>
     files = [] \<or> (\<exists>f \<in> set files. length (Headers f) \<noteq> length (Headers (hd files)))"
proof (cases files)
  case Nil
  then show ?thesis by simp
next
  case (Cons first others)
  show ?thesis
  proof (cases "mismatch (length (Headers first)) others")
    case None
    then have "\<forall>f \<in> set others. length (Headers f) = length (Headers first)"
      by (simp add: mismatch_None)
    with None Cons show ?thesis by simp
  next
    case (Some f)
    with mismatch_Some [OF Some] show ?thesis using Cons by auto
  qed
qed

lemma mismatch_cong:
  "map (\<lambda>f. length (Headers f)) fs = map (\<lambda>f. length (Headers f)) gs \<Longrightarrow>
   (mismatch n fs = None) = (mismatch n gs = None)"
  by (induction fs arbitrary: gs) auto

text \<open>
  Claim C8. \<^verbatim>\<open>Merge\<close> returns an error exactly when the sequence is empty or some
  table's header count differs from the first table's. The error is \<^verbatim>\<open>NoInputTables\<close>
  exactly for the empty sequence and \<^verbatim>\<open>SchemaMismatch\<close>, naming a table with a different
  count, otherwise. Whether it fails depends on the header counts alone, so names and
  types are not compared; an error carries no table.
\<close>

theorem Merge_fails_iff:
  "(isl (Merge files) \<longleftrightarrow>
      files = [] \<or> (\<exists>f \<in> set files. length (Headers f) \<noteq> length (Headers (hd files))))
   \<and> (Merge files = Inl NoInputTables \<longleftrightarrow> files = [])
   \<and> ((\<exists>f \<in> set files. length (Headers f) \<noteq> length (Headers (hd files))) \<longrightarrow>
        (\<exists>f \<in> set files. length (Headers f) \<noteq> length (Headers (hd files))
           \<and> Merge files = Inl (SchemaMismatch (FilePath f) (FilePath (hd files)))))
   \<and> (map (\<lambda>f. length (Headers f)) files = map (\<lambda>f. length (Headers f)) files' \<longrightarrow>
        isl (Merge files) = isl (Merge files'))"
proof (intro conjI impI)
  show "isl (Merge files) \<longleftrightarrow>
      files = [] \<or> (\<exists>f \<in> set files. length (Headers f) \<noteq> length (Headers (hd files)))"
    by (rule Merge_isl)
next
  show "Merge files = Inl NoInputTables \<longleftrightarrow> files = []"
    by (cases files) (auto split: option.splits)
next
  assume bad: "\<exists>f \<in> set files. length (Headers f) \<noteq> length (Headers (hd files))"
  then obtain first others where files: "files = first # others"
    by (cases files) auto
  with bad have "mismatch (length (Headers first)) others \<noteq> None"
    by (auto simp: mismatch_None)
  then obtain f where f: "mismatch (length (Headers first)) others = Some f"
    by auto
  from mismatch_Some [OF f] f files
  show "\<exists>f \<in> set files. length (Headers f) \<noteq> length (Headers (hd files))
           \<and> Merge files = Inl (SchemaMismatch (FilePath f) (FilePath (hd files)))"
    by auto
next
  assume eq: "map (\<lambda>f. length (Headers f)) files = map (\<lambda>f. length (Headers f)) files'"
  show "isl (Merge files) = isl (Merge files')"
  proof (cases files)
    case Nil
    with eq show ?thesis by simp
  next
    case (Cons first others)
    with eq obtain first' others' where files': "files' = first' # others'"
      and h: "length (Headers first) = length (Headers first')"
      and t: "map (\<lambda>f. length (Headers f)) others = map (\<lambda>f. length (Headers f)) others'"
      by (cases files') auto
    from mismatch_cong [OF t, of "length (Headers first)"] h
    show ?thesis unfolding Cons files' by (auto split: option.splits)
  qed
qed

theorem Merge_fails_iff_witness:
  "isl (Merge [\<lparr>FilePath = ''one.csv'', Delimiter = 44,
                 Headers = [\<lparr>Name = ''h1'', Type = StringType\<rparr>, \<lparr>Name = ''h2'', Type = StringType\<rparr>],
                 Records = [[Text ''1'', Text ''2'']]\<rparr>,
               \<lparr>FilePath = ''two.csv'', Delimiter = 44,
                 Headers = [\<lparr>Name = ''h1'', Type = StringType\<rparr>],
                 Records = [[Text ''3'']]\<rparr>])
   \<and> Merge [\<lparr>FilePath = ''one.csv'', Delimiter = 44,
                 Headers = [\<lparr>Name = ''h1'', Type = StringType\<rparr>, \<lparr>Name = ''h2'', Type = StringType\<rparr>],
                 Records = [[Text ''1'', Text ''2'']]\<rparr>,
               \<lparr>FilePath = ''two.csv'', Delimiter = 44,
                 Headers = [\<lparr>Name = ''h1'', Type = StringType\<rparr>],
                 Records = [[Text ''3'']]\<rparr>]
       = Inl (SchemaMismatch ''two.csv'' ''one.csv'')
   \<and> \<not> isl (Merge [\<lparr>FilePath = ''one.csv'', Delimiter = 44,
                 Headers = [\<lparr>Name = ''h1'', Type = StringType\<rparr>, \<lparr>Name = ''h2'', Type = StringType\<rparr>],
                 Records = [[Text ''1'', Text ''2'']]\<rparr>,
               \<lparr>FilePath = ''two.csv'', Delimiter = 59,
                 Headers = [\<lparr>Name = ''x'', Type = FloatType\<rparr>, \<lparr>Name = ''y'', Type = IntegerType\<rparr>],
                 Records = []\<rparr>])"
  using Merge_fails_iff [of "[\<lparr>FilePath = ''one.csv'', Delimiter = 44,
                 Headers = [\<lparr>Name = ''h1'', Type = StringType\<rparr>, \<lparr>Name = ''h2'', Type = StringType\<rparr>],
                 Records = [[Text ''1'', Text ''2'']]\<rparr>,
               \<lparr>FilePath = ''two.csv'', Delimiter = 44,
                 Headers = [\<lparr>Name = ''h1'', Type = StringType\<rparr>],
                 Records = [[Text ''3'']]\<rparr>]" "[]"]
    Merge_fails_iff [of "[\<lparr>FilePath = ''one.csv'', Delimiter = 44,
                 Headers = [\<lparr>Name = ''h1'', Type = StringType\<rparr>, \<lparr>Name = ''h2'', Type = StringType\<rparr>],
                 Records = [[Text ''1'', Text ''2'']]\<rparr>,
               \<lparr>FilePath = ''two.csv'', Delimiter = 59,
                 Headers = [\<lparr>Name = ''x'', Type = FloatType\<rparr>, \<lparr>Name = ''y'', Type = IntegerType\<rparr>],
                 Records = []\<rparr>]" "[]"]
  by simp

section \<open>Read: results\<close>

text \<open>
  Claim C9. Reading a source of exactly one record into a table that has no headers and
  no rows yet (as \<^verbatim>\<open>New\<close> makes it) succeeds: the headers are that record's fields, each
  of type \<^verbatim>\<open>StringType\<close>, and there are no rows. With a file path given, the error for
  an empty source is returned exactly when the source has no record at all.
\<close>

theorem Read_header_only:
  assumes "FilePath c \<noteq> []"
    and "w (FilePath c) (Delimiter c) = Parsed [header]"
    and "Headers c = []" and "Records c = []"
  shows "Read w c =
           Inr \<lparr>FilePath = FilePath c, Delimiter = Delimiter c,
                Headers = map (\<lambda>column. \<lparr>Name = column, Type = StringType\<rparr>) header,
                Records = []\<rparr>
         \<and> ((\<exists>p. Read w' c = Inl (EmptySource p)) \<longleftrightarrow> w' (FilePath c) (Delimiter c) = Parsed [])"
  using assms by (auto simp: Read_def Let_def split: source.splits list.splits)

theorem Read_header_only_witness:
  "Read headerOnly (New [WithFilePath ''h.csv'', WithDelimiter 44]) =
     Inr \<lparr>FilePath = ''h.csv'', Delimiter = 44,
          Headers = [\<lparr>Name = ''a'', Type = StringType\<rparr>, \<lparr>Name = ''b'', Type = StringType\<rparr>],
          Records = []\<rparr>
   \<and> Read headerOnly (New [WithFilePath ''h.csv'', WithDelimiter 59]) = Inl (EmptySource ''h.csv'')"
  using Read_header_only [of "New [WithFilePath ''h.csv'', WithDelimiter 44]" headerOnly "[''a'', ''b'']" headerOnly]
  by (simp add: New_def zeroCSV_def WithFilePath_def WithDelimiter_def headerOnly_def Read_def)

text \<open>
  Claim C10. A successful \<^verbatim>\<open>Read\<close> leaves the headers that were there, followed by the
  columns of the file's first record; reading the same source again succeeds too and
  leaves the file's columns twice after the old headers.
\<close>

theorem Read_appends_headers:
  assumes "Read w c = Inr c1"
  shows "\<exists>header rest. w (FilePath c) (Delimiter c) = Parsed (header # rest)
           \<and> Headers c1 = Headers c @ map (\<lambda>column. \<lparr>Name = column, Type = StringType\<rparr>) header
           \<and> (\<exists>c2. Read w c1 = Inr c2
                 \<and> Headers c2 = Headers c @ map (\<lambda>column. \<lparr>Name = column, Type = StringType\<rparr>) header
                                  @ map (\<lambda>column. \<lparr>Name = column, Type = StringType\<rparr>) header)"
  using assms by (auto simp: Read_def Let_def split: source.splits list.splits if_splits)

theorem Read_appends_headers_witness:
  "Read headerOnly \<lparr>FilePath = ''h.csv'', Delimiter = 44,
                    Headers = [\<lparr>Name = ''old'', Type = IntegerType\<rparr>], Records = []\<rparr>
     = Inr \<lparr>FilePath = ''h.csv'', Delimiter = 44,
            Headers = [\<lparr>Name = ''old'', Type = IntegerType\<rparr>, \<lparr>Name = ''a'', Type = StringType\<rparr>,
                       \<lparr>Name = ''b'', Type = StringType\<rparr>], Records = []\<rparr>
   \<and> (\<exists>c2. Read headerOnly \<lparr>FilePath = ''h.csv'', Delimiter = 44,
            Headers = [\<lparr>Name = ''old'', Type = IntegerType\<rparr>, \<lparr>Name = ''a'', Type = StringType\<rparr>,
                       \<lparr>Name = ''b'', Type = StringType\<rparr>], Records = []\<rparr> = Inr c2
          \<and> Headers c2 = [\<lparr>Name = ''old'', Type = IntegerType\<rparr>, \<lparr>Name = ''a'', Type = StringType\<rparr>,
                       \<lparr>Name = ''b'', Type = StringType\<rparr>, \<lparr>Name = ''a'', Type = StringType\<rparr>,
                       \<lparr>Name = ''b'', Type = StringType\<rparr>])"
proof -
  have r: "Read headerOnly \<lparr>FilePath = ''h.csv'', Delimiter = 44,
                    Headers = [\<lparr>Name = ''old'', Type = IntegerType\<rparr>], Records = []\<rparr>
     = Inr \<lparr>FilePath = ''h.csv'', Delimiter = 44,
            Headers = [\<lparr>Name = ''old'', Type = IntegerType\<rparr>, \<lparr>Name = ''a'', Type = StringType\<rparr>,
                       \<lparr>Name = ''b'', Type = StringType\<rparr>], Records = []\<rparr>"
    by (simp add: Read_def headerOnly_def)
  from Read_appends_headers [OF r] r show ?thesis
    by (auto simp: headerOnly_def)
qed

section \<open>The parsers: results\<close>

lemma bitlen_le: "n < 2 ^ k \<Longrightarrow> bitlen n \<le> k"
proof (induction n arbitrary: k rule: bitlen.induct)
  case (1 n)
  show ?case
  proof (cases "n = 0")
    case True
    then show ?thesis by simp
  next
    case False
    with "1.prems" obtain k' where k: "k = Suc k'"
      by (cases k) auto
    with "1.prems" have "n div 2 < 2 ^ k'" by auto
    with "1.IH" [OF False] have "bitlen (n div 2) \<le> k'" .
    with False k show ?thesis by simp
  qed
qed

lemma floorLog2_le: "floorLog2 num (Suc 0) \<le> int (bitlen num) - 1"
  by (simp add: floorLog2_def Let_def)

lemma finishFloat64_Some: "e \<le> 1022 \<Longrightarrow> finishFloat64 neg e m \<noteq> None"
  by (simp add: finishFloat64_def Let_def)

lemma roundFloat64_small:
  assumes "num < 2 ^ 64"
  shows "roundFloat64 neg num (Suc 0) \<noteq> None"
proof (cases "num = 0")
  case True
  then show ?thesis by (simp add: roundFloat64_def)
next
  case False
  from bitlen_le [OF assms] floorLog2_le [of num]
  have "max (floorLog2 num (Suc 0)) (- 1022) \<le> 1022" by simp
  from finishFloat64_Some [OF this] show ?thesis
    unfolding roundFloat64_def Let_def by (simp only: False if_False not_False_eq_True)
qed

lemma isDigit_lower: "isDigit c \<Longrightarrow> lower c = byte c"
proof -
  assume "isDigit c"
  then have "48 \<le> byte c \<and> byte c \<le> 57"
    by (simp add: isDigit_def byte_def)
  then have "byte c = 48 \<or> byte c = 49 \<or> byte c = 50 \<or> byte c = 51 \<or> byte c = 52
      \<or> byte c = 53 \<or> byte c = 54 \<or> byte c = 55 \<or> byte c = 56 \<or> byte c = 57"
    by arith
  then show ?thesis
    by (auto simp: lower_def)
qed

lemma isDigit_not_special:
  assumes "isDigit c"
  shows "c \<noteq> CHR ''_''" "c \<noteq> CHR ''.''" "c \<noteq> CHR ''+''" "c \<noteq> CHR ''-''"
    "c \<noteq> CHR ''i''" "c \<noteq> CHR ''I''" "c \<noteq> CHR ''n''" "c \<noteq> CHR ''N''"
    "lower c \<noteq> byte (CHR ''x'')" "lower c \<noteq> byte (CHR ''e'')" "toLowerASCII c = c"
  using assms isDigit_lower [OF assms] by (auto simp: isDigit_def byte_def toLowerASCII_def)

lemma parseUintLoop_digits: "parseUintLoop n cs = Some un \<Longrightarrow> \<forall>c \<in> set cs. isDigit c"
  by (induction cs arbitrary: n) (auto split: if_splits)

lemma digit_zero: "digit (CHR ''0'') = 0"
  by (simp add: digit_def)

lemma readDigits_digits:
  assumes "parseUintLoop n cs = Some un" and "mantissa m = n" and "nd m = 0 \<longrightarrow> n = 0"
  shows "\<exists>m'. readDigits 10 m cs = (m', []) \<and> mantissa m' = un \<and> sawdot m' = sawdot m
           \<and> underscores m' = underscores m \<and> sawdigits m' = (sawdigits m \<or> cs \<noteq> [])"
  using assms
proof (induction cs arbitrary: n m)
  case Nil
  then show ?case by simp
next
  case (Cons c cs)
  from Cons.prems(1) have d: "isDigit c"
    and step: "parseUintLoop (n * 10 + digit c) cs = Some un"
    by (simp_all split: if_splits)
  note ns = isDigit_not_special(1,2) [OF d]
  show ?case
  proof (cases "c = CHR ''0'' \<and> nd m = 0")
    case True
    with Cons.prems have n0: "n = 0" by simp
    let ?m = "m\<lparr>sawdigits := True, dp := dp m - 1\<rparr>"
    have eq: "readDigits 10 m (c # cs) = readDigits 10 ?m cs"
      using True d ns by simp
    from step True n0 have "parseUintLoop 0 cs = Some un" by (simp add: digit_zero)
    from Cons.IH [OF this, of ?m] Cons.prems(2) n0
    obtain m' where "readDigits 10 ?m cs = (m', [])" "mantissa m' = un" "sawdot m' = sawdot m"
      "underscores m' = underscores m" "sawdigits m'"
      by auto
    with eq show ?thesis by simp
  next
    case False
    let ?m = "m\<lparr>sawdigits := True, nd := nd m + 1, mantissa := mantissa m * 10 + digit c\<rparr>"
    have eq: "readDigits 10 m (c # cs) = readDigits 10 ?m cs"
      using False d ns by auto
    have "parseUintLoop (mantissa ?m) cs = Some un"
      using step Cons.prems(2) by simp
    from Cons.IH [OF this, of ?m]
    obtain m' where "readDigits 10 ?m cs = (m', [])" "mantissa m' = un" "sawdot m' = sawdot m"
      "underscores m' = underscores m" "sawdigits m'"
      by auto
    with eq show ?thesis by simp
  qed
qed


lemma readFloat_digits:
  assumes "parseUintLoop 0 ds = Some un" and "ds \<noteq> []"
    and "s = ds \<or> s = CHR ''+'' # ds \<or> s = CHR ''-'' # ds"
  shows "readFloat s = Some (s = CHR ''-'' # ds, False, un, 0, [])"
proof -
  from parseUintLoop_digits [OF assms(1)] have digits: "\<forall>c \<in> set ds. isDigit c" .
  from assms(2) obtain d ds' where ds: "ds = d # ds'" by (cases ds) auto
  with digits have d: "isDigit d" by simp
  note nsd = isDigit_not_special [OF d]
  from assms(3) ds obtain c cs where s: "s = c # cs" by auto
  from assms(3) ds nsd have s1: "stripSign (c # cs) = ds"
    unfolding s by (auto simp: stripSign_def)
  have nohex: "(2 < length ds \<and> ds ! 0 = CHR ''0'' \<and> lower (ds ! 1) = byte (CHR ''x'')) = False"
  proof -
    have "False" if h: "2 < length ds \<and> ds ! 0 = CHR ''0'' \<and> lower (ds ! 1) = byte (CHR ''x'')"
    proof -
      from h have "ds ! 1 \<in> set ds" by (intro nth_mem) simp
      with digits have "isDigit (ds ! 1)" by simp
      from isDigit_not_special(9) [OF this] h show False by simp
    qed
    then show ?thesis by blast
  qed
  let ?m0 = "\<lparr>sawdot = False, sawdigits = False, nd = 0, dp = 0, mantissa = 0, underscores = False\<rparr>"
  from readDigits_digits [OF assms(1), of ?m0] assms(2)
  obtain m' where m': "readDigits 10 ?m0 ds = (m', [])" "mantissa m' = un" "\<not> sawdot m'"
    "\<not> underscores m'" "sawdigits m'"
    by auto
  have neg: "(c = CHR ''-'') = (c # cs = CHR ''-'' # ds)"
    using assms(3) ds nsd unfolding s by auto
  have "readFloat (c # cs) = Some (c = CHR ''-'', False, un, 0, [])"
    unfolding readFloat_def list.case Let_def s1 nohex
    using m' by (simp add: readExponent_def)
  then show ?thesis unfolding s neg .
qed

lemma special_digits:
  assumes "isDigit d" and "s = d # ds \<or> s = CHR ''+'' # d # ds \<or> s = CHR ''-'' # d # ds"
  shows "special s = None"
  using assms(2) isDigit_not_special [OF assms(1)]
  by (auto simp: special_def infinityLen_def)

lemma ParseInt_Some:
  assumes "ParseInt s = Some v"
  shows "\<exists>ds un. ds \<noteq> [] \<and> parseUintLoop 0 ds = Some un \<and> un \<le> 2 ^ 63
           \<and> (s = ds \<or> s = CHR ''+'' # ds \<or> s = CHR ''-'' # ds)"
proof (cases s)
  case Nil
  with assms show ?thesis by (simp add: ParseInt_def)
next
  case (Cons c cs)
  let ?s1 = "if c = CHR ''+'' \<or> c = CHR ''-'' then cs else s"
  from assms Cons obtain un where un: "ParseUint ?s1 = Some un" and le: "un \<le> 2 ^ 63"
    by (auto simp: ParseInt_def Let_def split: option.splits if_splits)
  then have "?s1 \<noteq> []" "parseUintLoop 0 ?s1 = Some un"
    by (auto simp: ParseUint_def split: if_splits)
  moreover have "s = ?s1 \<or> s = CHR ''+'' # ?s1 \<or> s = CHR ''-'' # ?s1"
    using Cons by auto
  ultimately show ?thesis using le by blast
qed

lemma ParseInt_ParseFloat:
  assumes "ParseInt s \<noteq> None"
  shows "ParseFloat s \<noteq> None"
proof -
  from assms obtain v where "ParseInt s = Some v" by auto
  from ParseInt_Some [OF this] obtain ds un where ds: "ds \<noteq> []"
    and loop: "parseUintLoop 0 ds = Some un" and le: "un \<le> 2 ^ 63"
    and s: "s = ds \<or> s = CHR ''+'' # ds \<or> s = CHR ''-'' # ds"
    by blast
  from ds obtain d ds' where dds: "ds = d # ds'" by (cases ds) auto
  with parseUintLoop_digits [OF loop] have "isDigit d" by simp
  from special_digits [OF this, of s ds'] s dds have sp: "special s = None" by simp
  from le have "un < 2 ^ 64" by simp
  from roundFloat64_small [OF this]
  show ?thesis
    by (simp add: ParseFloat_def sp readFloat_digits [OF loop ds s])
qed

section \<open>Type inference: results\<close>

lemma countColumn_eq:
  "countColumn i rows f n =
     (if wide (Suc i) rows
      then Some (f + floatCount i rows, n + intCount i rows)
      else None)"
  by (induction rows arbitrary: f n)
    (auto simp: wide_def floatCount_def intCount_def column_def floatText_def intText_def
      split: cell.splits)

lemma wide_mono: "wide n rows \<Longrightarrow> m \<le> n \<Longrightarrow> wide m rows"
  by (auto simp: wide_def list_all_iff)

lemma inferHeaders_eq:
  "inferHeaders r sample k hs =
     (if hs = [] \<or> wide (k + length hs) sample
      then Some (map (\<lambda>(j, h). decide r (floatCount j sample) (intCount j sample) h)
                   (enumerate k hs))
      else None)"
proof (induction hs arbitrary: k)
  case Nil
  then show ?case by simp
next
  case (Cons h hs)
  show ?case
  proof (cases "wide (k + length (h # hs)) sample")
    case True
    then have "wide (Suc k) sample" "hs = [] \<or> wide (Suc k + length hs) sample"
      by (auto elim: wide_mono)
    with True show ?thesis
      by (simp add: Cons.IH countColumn_eq decide_def)
  next
    case False
    show ?thesis
    proof (cases "wide (Suc k) sample")
      case w: True
      with False have "hs \<noteq> []" "\<not> wide (Suc k + length hs) sample"
        by auto
      with False w show ?thesis by (simp add: Cons.IH countColumn_eq)
    next
      case w: False
      with False show ?thesis by (simp add: countColumn_eq)
    qed
  qed
qed

lemmas float_eval = ParseFloat_def special_def readFloat_def stripSign_def readExponent_def
  roundFloat64_def finishFloat64_def roundHalfEven_def floorLog2_def packFloat64_def
  isDigit_def digit_def byte_def lower_def Let_def infinityLen_def toLowerASCII_def
  underscoreOK_def

lemmas int_eval = ParseInt_def ParseUint_def isDigit_def digit_def byte_def maxUint64_def

lemma map_enumerate_snd: "map (\<lambda>(j, h). f h) (enumerate k hs) = map f hs"
  by (induction hs arbitrary: k) auto

lemma floatCount_Nil: "floatCount j [] = 0"
  by (simp add: floatCount_def column_def)

lemma intCount_Nil: "intCount j [] = 0"
  by (simp add: intCount_def column_def)

text \<open>
  Claim C1 states that for a table without rows \<^verbatim>\<open>inferColumnTypes\<close> leaves every column's
  type as it was. The code does not: the sample is empty, so \<^verbatim>\<open>floatCount\<close> and
  \<^verbatim>\<open>rangeToCheck\<close> are both 0, the test \<^verbatim>\<open>floatCount == rangeToCheck\<close> succeeds, and every
  column, whatever its type was, is given \<^verbatim>\<open>FloatType\<close>.
\<close>

theorem inferColumnTypes_no_rows:
  assumes "Records c = []"
  shows "inferColumnTypes c = Some (c\<lparr>Headers := map (\<lambda>h. h\<lparr>Type := FloatType\<rparr>) (Headers c)\<rparr>)"
proof -
  have "inferHeaders 0 [] 0 (Headers c) = Some (map (\<lambda>h. h\<lparr>Type := FloatType\<rparr>) (Headers c))"
    by (simp add: inferHeaders_eq wide_def floatCount_Nil intCount_Nil decide_def
        map_enumerate_snd)
  with assms show ?thesis by (simp add: inferColumnTypes_def)
qed

theorem inferColumnTypes_no_rows_witness:
  "inferColumnTypes \<lparr>FilePath = ''h.csv'', Delimiter = 44,
                     Headers = [\<lparr>Name = ''a'', Type = StringType\<rparr>, \<lparr>Name = ''b'', Type = StringType\<rparr>],
                     Records = []\<rparr>
   = Some \<lparr>FilePath = ''h.csv'', Delimiter = 44,
           Headers = [\<lparr>Name = ''a'', Type = FloatType\<rparr>, \<lparr>Name = ''b'', Type = FloatType\<rparr>],
           Records = []\<rparr>"
  using inferColumnTypes_no_rows [of "\<lparr>FilePath = ''h.csv'', Delimiter = 44,
                     Headers = [\<lparr>Name = ''a'', Type = StringType\<rparr>, \<lparr>Name = ''b'', Type = StringType\<rparr>],
                     Records = []\<rparr>"]
  by simp

lemma floatCount_all:
  assumes "\<forall>row \<in> set rows. floatText (row ! i)"
  shows "floatCount i rows = length rows"
  using assms by (induction rows) (auto simp: floatCount_def column_def)

lemma inferColumnTypes_nth:
  assumes "inferColumnTypes c = Some c'" and "i < length (Headers c)"
  shows "Headers c' ! i =
           decide (min defaultTypeInferanceRows (length (Records c)))
             (floatCount i (take defaultTypeInferanceRows (Records c)))
             (intCount i (take defaultTypeInferanceRows (Records c)))
             (Headers c ! i)"
proof -
  let ?r = "min defaultTypeInferanceRows (length (Records c))"
  have t: "take ?r (Records c) = take defaultTypeInferanceRows (Records c)"
    by (simp add: min_def)
  from assms(1) have "inferHeaders ?r (take defaultTypeInferanceRows (Records c)) 0 (Headers c)
      = Some (Headers c')"
    by (auto simp: inferColumnTypes_def Let_def t)
  then have "Headers c' = map (\<lambda>(j, h). decide ?r
         (floatCount j (take defaultTypeInferanceRows (Records c)))
         (intCount j (take defaultTypeInferanceRows (Records c))) h) (enumerate 0 (Headers c))"
    by (simp add: inferHeaders_eq split: if_splits)
  with assms(2) show ?thesis by (simp add: nth_enumerate_eq)
qed

text \<open>
  Claim C2 states that a column whose sampled cells all parse as integers is given
  \<^verbatim>\<open>IntegerType\<close> and never \<^verbatim>\<open>FloatType\<close>. The code gives it \<^verbatim>\<open>FloatType\<close>: every text
  \<^verbatim>\<open>ParseInt\<close> accepts is accepted by \<^verbatim>\<open>ParseFloat\<close>, which is tried first, so such a cell
  always counts for \<^verbatim>\<open>floatCount\<close>. The witness is the table of the repository's test
  "Infer types for all integers", which expects \<^verbatim>\<open>IntegerType\<close> for both columns.
\<close>

theorem inferColumnTypes_integer_column:
  assumes "inferColumnTypes c = Some c'" and "i < length (Headers c)"
    and "\<forall>row \<in> set (take defaultTypeInferanceRows (Records c)).
           \<exists>s. row ! i = Text s \<and> ParseInt s \<noteq> None"
  shows "Type (Headers c' ! i) = FloatType"
proof -
  have "floatText (row ! i)" if "row \<in> set (take defaultTypeInferanceRows (Records c))" for row
  proof -
    from assms(3) that obtain s where s: "row ! i = Text s" "ParseInt s \<noteq> None" by blast
    from ParseInt_ParseFloat [OF s(2)] s(1) show ?thesis by (simp add: floatText_def)
  qed
  then have "\<forall>row \<in> set (take defaultTypeInferanceRows (Records c)). floatText (row ! i)"
    by blast
  from floatCount_all [OF this]
  have "floatCount i (take defaultTypeInferanceRows (Records c))
          = min defaultTypeInferanceRows (length (Records c))"
    by (simp add: min_def)
  with inferColumnTypes_nth [OF assms(1,2)] show ?thesis
    by (simp add: decide_def)
qed


theorem inferColumnTypes_integer_column_witness:
  "inferColumnTypes \<lparr>FilePath = [], Delimiter = 0,
       Headers = [\<lparr>Name = ''Column1'', Type = StringType\<rparr>, \<lparr>Name = ''Column2'', Type = StringType\<rparr>],
       Records = [[Text ''123'', Text ''456''], [Text ''789'', Text ''101112'']]\<rparr>
   = Some \<lparr>FilePath = [], Delimiter = 0,
       Headers = [\<lparr>Name = ''Column1'', Type = FloatType\<rparr>, \<lparr>Name = ''Column2'', Type = FloatType\<rparr>],
       Records = [[Text ''123'', Text ''456''], [Text ''789'', Text ''101112'']]\<rparr>
   \<and> ParseInt ''123'' = Some 123 \<and> ParseInt ''789'' = Some 789"
proof -
  let ?c = "\<lparr>FilePath = [], Delimiter = 0,
       Headers = [\<lparr>Name = ''Column1'', Type = StringType\<rparr>, \<lparr>Name = ''Column2'', Type = StringType\<rparr>],
       Records = [[Text ''123'', Text ''456''], [Text ''789'', Text ''101112'']]\<rparr>"
  have i: "ParseInt ''123'' = Some 123" "ParseInt ''789'' = Some 789"
    "ParseInt ''456'' = Some 456" "ParseInt ''101112'' = Some 101112"
    by (simp_all add: int_eval)
  obtain c' where c': "inferColumnTypes ?c = Some c'"
    by (auto simp: inferColumnTypes_def inferHeaders_eq wide_def defaultTypeInferanceRows_def)
  then have hs: "length (Headers c') = 2" "map Name (Headers c') = [''Column1'', ''Column2'']"
    and rest: "FilePath c' = []" "Delimiter c' = 0"
      "Records c' = [[Text ''123'', Text ''456''], [Text ''789'', Text ''101112'']]"
    by (auto simp: inferColumnTypes_def inferHeaders_eq wide_def defaultTypeInferanceRows_def
        decide_def)
  have "Type (Headers c' ! 0) = FloatType"
    by (rule inferColumnTypes_integer_column [OF c']) (simp_all add: defaultTypeInferanceRows_def i)
  moreover have "Type (Headers c' ! 1) = FloatType"
    by (rule inferColumnTypes_integer_column [OF c']) (simp_all add: defaultTypeInferanceRows_def i)
  ultimately have "Headers c' = [\<lparr>Name = ''Column1'', Type = FloatType\<rparr>, \<lparr>Name = ''Column2'', Type = FloatType\<rparr>]"
    using hs by (cases "Headers c'" rule: list.exhaust) (auto simp: Column.equality length_Suc_conv)
  with rest c' i show ?thesis by (cases c') simp
qed

section \<open>Conversion: results\<close>

lemma map_upt_nth_id: "(\<And>j. j < length row \<Longrightarrow> f j = row ! j) \<Longrightarrow> map f [0..<length row] = row"
  by (rule nth_equalityI) auto

lemma convertRecord_eq:
  "convertRecord i hs row =
     (if hs = [] \<or> i + length hs \<le> length row
      then Some (map (\<lambda>j. if i \<le> j \<and> j < i + length hs
                            then convertCell (Type (hs ! (j - i))) (row ! j) else row ! j)
                   [0..<length row])
      else None)"
proof (induction hs arbitrary: i row)
  case Nil
  have "map (\<lambda>j. if i \<le> j \<and> j < i + length ([] :: Column list)
                    then convertCell (Type (([] :: Column list) ! (j - i))) (row ! j) else row ! j)
          [0..<length row] = row"
    by (rule map_upt_nth_id) auto
  then show ?case by simp
next
  case (Cons h hs)
  show ?case
  proof (cases "i < length row")
    case False
    then show ?thesis by simp
  next
    case True
    let ?row = "row[i := convertCell (Type h) (row ! i)]"
    have step: "convertRecord i (h # hs) row = convertRecord (i + 1) hs ?row"
      using True by simp
    show ?thesis
    proof (cases "hs = [] \<or> i + 1 + length hs \<le> length row")
      case False
      with True show ?thesis by (simp add: step Cons.IH)
    next
      case ok: True
      with True have ok': "i + length (h # hs) \<le> length row" by auto
      have "map (\<lambda>j. if i + 1 \<le> j \<and> j < i + 1 + length hs
                        then convertCell (Type (hs ! (j - (i + 1)))) (?row ! j) else ?row ! j)
              [0..<length ?row]
          = map (\<lambda>j. if i \<le> j \<and> j < i + length (h # hs)
                        then convertCell (Type ((h # hs) ! (j - i))) (row ! j) else row ! j)
              [0..<length row]"
      proof (rule nth_equalityI)
        show "length (map (\<lambda>j. if i + 1 \<le> j \<and> j < i + 1 + length hs
                        then convertCell (Type (hs ! (j - (i + 1)))) (?row ! j) else ?row ! j)
              [0..<length ?row])
          = length (map (\<lambda>j. if i \<le> j \<and> j < i + length (h # hs)
                        then convertCell (Type ((h # hs) ! (j - i))) (row ! j) else row ! j)
              [0..<length row])"
          by simp
      next
        fix j
        assume "j < length (map (\<lambda>j. if i + 1 \<le> j \<and> j < i + 1 + length hs
                        then convertCell (Type (hs ! (j - (i + 1)))) (?row ! j) else ?row ! j)
              [0..<length ?row])"
        then have j: "j < length row" by simp
        consider "j < i" | "j = i" | "i < j" by arith
        then show "map (\<lambda>j. if i + 1 \<le> j \<and> j < i + 1 + length hs
                        then convertCell (Type (hs ! (j - (i + 1)))) (?row ! j) else ?row ! j)
              [0..<length ?row] ! j
          = map (\<lambda>j. if i \<le> j \<and> j < i + length (h # hs)
                        then convertCell (Type ((h # hs) ! (j - i))) (row ! j) else row ! j)
              [0..<length row] ! j"
        proof cases
          case 1
          with j show ?thesis by simp
        next
          case 2
          with j show ?thesis by simp
        next
          case 3
          then obtain d where d: "j - i = Suc d" "j - (i + 1) = d"
            by (cases "j - i") auto
          with 3 j show ?thesis by simp
        qed
      qed
      then have eq: "Some (map (\<lambda>j. if i + 1 \<le> j \<and> j < i + 1 + length hs
                        then convertCell (Type (hs ! (j - (i + 1)))) (?row ! j) else ?row ! j)
              [0..<length ?row])
          = Some (map (\<lambda>j. if i \<le> j \<and> j < i + length (h # hs)
                        then convertCell (Type ((h # hs) ! (j - i))) (row ! j) else row ! j)
              [0..<length row])"
        by (simp only:)
      from ok have "convertRecord (i + 1) hs ?row
          = Some (map (\<lambda>j. if i + 1 \<le> j \<and> j < i + 1 + length hs
                        then convertCell (Type (hs ! (j - (i + 1)))) (?row ! j) else ?row ! j)
              [0..<length ?row])"
        by (simp add: Cons.IH)
      then have "convertRecord i (h # hs) row
          = Some (map (\<lambda>j. if i \<le> j \<and> j < i + length (h # hs)
                        then convertCell (Type ((h # hs) ! (j - i))) (row ! j) else row ! j)
              [0..<length row])"
        unfolding step eq .
      then show ?thesis by (simp only: ok' simp_thms if_True)
    qed
  qed
qed

lemma convertRecord_0:
  "convertRecord 0 hs row =
     (if hs = [] \<or> length hs \<le> length row then Some (convertedRow hs row) else None)"
  by (simp add: convertRecord_eq convertedRow_def)

lemma convertRecords_eq:
  "convertRecords hs rows =
     (if hs = [] \<or> wide (length hs) rows then Some (map (convertedRow hs) rows) else None)"
  by (induction rows) (auto simp: convertRecord_0 wide_def)

lemma convertCell_idem: "convertCell t (convertCell t v) = convertCell t v"
  by (cases v; cases t) (auto simp: convertCell_def split: option.splits)

lemma floatText_convertCell: "floatText (convertCell t v) \<Longrightarrow> floatText v"
  by (cases v; cases t) (auto simp: convertCell_def floatText_def split: option.splits)

lemma intText_convertCell: "intText (convertCell t v) \<Longrightarrow> intText v"
  by (cases v; cases t) (auto simp: convertCell_def intText_def split: option.splits)

lemma floatText_convertCell_Float: "\<not> floatText (convertCell FloatType v)"
  by (cases v) (auto simp: convertCell_def floatText_def split: option.splits)

lemma length_filter_map_le:
  "(\<And>v. P (f v) \<Longrightarrow> Q v) \<Longrightarrow> length (filter P (map f xs)) \<le> length (filter Q xs)"
  by (induction xs) auto

lemma floatText_not_intText: "floatText v \<Longrightarrow> \<not> intText v"
  by (cases v) (auto simp: floatText_def intText_def)

lemma float_int_disjoint: "length (filter floatText col) + length (filter intText col) \<le> length col"
  by (induction col) (auto dest: floatText_not_intText)

lemma decide_Type: "h\<lparr>Type := Type h\<rparr> = h"
  by simp

lemma decide_float: "fc = r \<Longrightarrow> decide r fc ic h = h\<lparr>Type := FloatType\<rparr>"
  by (simp add: decide_def)

lemma decide_int: "fc \<noteq> r \<Longrightarrow> ic = r \<Longrightarrow> decide r fc ic h = h\<lparr>Type := IntegerType\<rparr>"
  by (simp add: decide_def)

lemma decide_none: "fc \<noteq> r \<Longrightarrow> ic \<noteq> r \<Longrightarrow> decide r fc ic h = h"
  by (simp add: decide_def)

lemma decide_stable:
  assumes "length col = r"
  shows "decide r (length (filter floatText
                     (map (convertCell (Type (decide r (length (filter floatText col))
                                                (length (filter intText col)) h))) col)))
                  (length (filter intText
                     (map (convertCell (Type (decide r (length (filter floatText col))
                                                (length (filter intText col)) h))) col)))
                  (decide r (length (filter floatText col)) (length (filter intText col)) h)
         = decide r (length (filter floatText col)) (length (filter intText col)) h"
proof -
  let ?fc1 = "length (filter floatText col)"
  let ?ic1 = "length (filter intText col)"
  let ?h1 = "decide r ?fc1 ?ic1 h"
  let ?col = "map (convertCell (Type ?h1)) col"
  let ?fc2 = "length (filter floatText ?col)"
  let ?ic2 = "length (filter intText ?col)"
  have f: "?fc2 \<le> ?fc1" by (rule length_filter_map_le) (rule floatText_convertCell)
  have i: "?ic2 \<le> ?ic1" by (rule length_filter_map_le) (rule intText_convertCell)
  have fr: "?fc1 \<le> r" and ir: "?ic1 \<le> r" using assms length_filter_le [of _ col] by auto
  have d: "?fc1 + ?ic1 \<le> r" using float_int_disjoint [of col] assms by simp
  have z: "?fc2 = 0" if "Type ?h1 = FloatType"
    unfolding that by (simp add: filter_empty_conv floatText_convertCell_Float)
  show ?thesis
  proof (cases "?fc2 = r")
    case True
    with f fr have "?fc1 = r" by simp
    then have "Type ?h1 = FloatType" by (simp add: decide_def)
    then have "?h1\<lparr>Type := FloatType\<rparr> = ?h1" by (metis decide_Type)
    with decide_float [OF True, of ?ic2 ?h1] show ?thesis by (simp only:)
  next
    case nf: False
    show ?thesis
    proof (cases "?ic2 = r")
      case True
      with i ir have i1: "?ic1 = r" by simp
      have "?fc1 \<noteq> r"
      proof
        assume e: "?fc1 = r"
        with d i1 have "r = 0" by simp
        moreover from e have "Type ?h1 = FloatType" by (simp add: decide_def)
        ultimately show False using z nf by simp
      qed
      with i1 have "Type ?h1 = IntegerType" by (simp add: decide_def)
      then have "?h1\<lparr>Type := IntegerType\<rparr> = ?h1" by (metis decide_Type)
      with decide_int [OF nf True, of ?h1] show ?thesis by (simp only:)
    next
      case False
      from decide_none [OF nf False, of ?h1] show ?thesis .
    qed
  qed
qed

lemma length_convertedRow: "length (convertedRow hs row) = length row"
  by (simp add: convertedRow_def)

lemma nth_convertedRow:
  "j < length row \<Longrightarrow>
   convertedRow hs row ! j = (if j < length hs then convertCell (Type (hs ! j)) (row ! j) else row ! j)"
  by (simp add: convertedRow_def)

lemma convertedRow_idem: "convertedRow hs (convertedRow hs row) = convertedRow hs row"
  by (rule nth_equalityI) (simp_all add: length_convertedRow nth_convertedRow convertCell_idem)

lemma wide_convertedRow: "wide n (map (convertedRow hs) rows) = wide n rows"
  by (simp add: wide_def list_all_iff length_convertedRow)

lemma wide_take: "wide n rows \<Longrightarrow> wide n (take r rows)"
  by (auto simp: wide_def list_all_iff dest: in_set_takeD)

lemma column_convertedRow:
  assumes "wide (Suc j) rows" and "j < length hs"
  shows "column j (map (convertedRow hs) rows) = map (convertCell (Type (hs ! j))) (column j rows)"
  using assms by (induction rows) (simp_all add: column_def wide_def nth_convertedRow)

lemma inferHeaders_stable:
  assumes hs1: "hs1 = map (\<lambda>(j, h). decide r (floatCount j sample) (intCount j sample) h)
                        (enumerate 0 hs0)"
    and len: "length sample = r"
    and w: "hs0 = [] \<or> wide (length hs0) sample"
  shows "inferHeaders r (map (convertedRow hs1) sample) 0 hs1 = Some hs1"
proof -
  let ?sample = "map (convertedRow hs1) sample"
  from hs1 have l: "length hs1 = length hs0" by simp
  have "map (\<lambda>(j, h). decide r (floatCount j ?sample) (intCount j ?sample) h) (enumerate 0 hs1) = hs1"
  proof (rule nth_equalityI)
    show "length (map (\<lambda>(j, h). decide r (floatCount j ?sample) (intCount j ?sample) h)
                    (enumerate 0 hs1)) = length hs1"
      by simp
  next
    fix j
    assume "j < length (map (\<lambda>(j, h). decide r (floatCount j ?sample) (intCount j ?sample) h)
                          (enumerate 0 hs1))"
    then have j: "j < length hs1" by simp
    with l w have "wide (length hs0) sample" by auto
    with j l have wj: "wide (Suc j) sample" by (auto elim: wide_mono)
    let ?col = "column j sample"
    have lc: "length ?col = r" using len by (simp add: column_def)
    have h1: "hs1 ! j = decide r (length (filter floatText ?col)) (length (filter intText ?col)) (hs0 ! j)"
      using j l unfolding hs1 by (simp add: nth_enumerate_eq floatCount_def intCount_def)
    have col: "column j ?sample = map (convertCell (Type (hs1 ! j))) ?col"
      by (rule column_convertedRow [OF wj j])
    have "decide r (floatCount j ?sample) (intCount j ?sample) (hs1 ! j) = hs1 ! j"
      unfolding floatCount_def intCount_def col
      unfolding h1 by (rule decide_stable [OF lc])
    with j show "map (\<lambda>(j, h). decide r (floatCount j ?sample) (intCount j ?sample) h)
                   (enumerate 0 hs1) ! j = hs1 ! j"
      by (simp add: nth_enumerate_eq)
  qed
  moreover from w l have "hs1 = [] \<or> wide (0 + length hs1) ?sample"
    by (auto simp: wide_convertedRow)
  ultimately show ?thesis by (simp only: inferHeaders_eq if_True)
qed

lemma ConvertColumnTypes_Some:
  assumes "ConvertColumnTypes c = Some c'"
  shows "\<exists>hs1. hs1 = map (\<lambda>(j, h). decide (min defaultTypeInferanceRows (length (Records c)))
                     (floatCount j (take defaultTypeInferanceRows (Records c)))
                     (intCount j (take defaultTypeInferanceRows (Records c))) h)
                   (enumerate 0 (Headers c))
           \<and> (Headers c = [] \<or> wide (length (Headers c)) (take defaultTypeInferanceRows (Records c)))
           \<and> (hs1 = [] \<or> wide (length hs1) (Records c))
           \<and> c' = c\<lparr>Headers := hs1, Records := map (convertedRow hs1) (Records c)\<rparr>"
proof -
  let ?r = "min defaultTypeInferanceRows (length (Records c))"
  have t: "take ?r (Records c) = take defaultTypeInferanceRows (Records c)"
    by (simp add: min_def)
  from assms obtain c1 where c1: "inferColumnTypes c = Some c1"
    and rows: "map_option (\<lambda>rows. c1\<lparr>Records := rows\<rparr>) (convertRecords (Headers c1) (Records c1)) = Some c'"
    by (auto simp: ConvertColumnTypes_def split: option.splits)
  from c1 obtain hs1 where hs1: "inferHeaders ?r (take defaultTypeInferanceRows (Records c)) 0 (Headers c) = Some hs1"
    and c1': "c1 = c\<lparr>Headers := hs1\<rparr>"
    by (auto simp: inferColumnTypes_def Let_def t)
  from hs1 have a: "hs1 = map (\<lambda>(j, h). decide ?r
                     (floatCount j (take defaultTypeInferanceRows (Records c)))
                     (intCount j (take defaultTypeInferanceRows (Records c))) h)
                   (enumerate 0 (Headers c))"
    and b: "Headers c = [] \<or> wide (length (Headers c)) (take defaultTypeInferanceRows (Records c))"
    by (auto simp: inferHeaders_eq split: if_splits)
  from rows c1' have d: "hs1 = [] \<or> wide (length hs1) (Records c)"
    and e: "c' = c\<lparr>Headers := hs1, Records := map (convertedRow hs1) (Records c)\<rparr>"
    by (auto simp: convertRecords_eq split: if_splits)
  from a b d e show ?thesis by blast
qed

text \<open>
  Claim C6. \<^verbatim>\<open>ConvertColumnTypes\<close> is idempotent: when a call returns (no row is shorter
  than the header list), a second call on its result returns too and changes nothing,
  neither a column type nor a cell (nor the path or the delimiter).
\<close>

theorem ConvertColumnTypes_idempotent:
  assumes "ConvertColumnTypes c = Some c'"
  shows "ConvertColumnTypes c' = Some c'"
proof -
  let ?r = "min defaultTypeInferanceRows (length (Records c))"
  let ?sample = "take defaultTypeInferanceRows (Records c)"
  from ConvertColumnTypes_Some [OF assms] obtain hs1
    where hs1: "hs1 = map (\<lambda>(j, h). decide ?r (floatCount j ?sample) (intCount j ?sample) h)
                        (enumerate 0 (Headers c))"
      and w0: "Headers c = [] \<or> wide (length (Headers c)) ?sample"
      and w1: "hs1 = [] \<or> wide (length hs1) (Records c)"
      and c': "c' = c\<lparr>Headers := hs1, Records := map (convertedRow hs1) (Records c)\<rparr>"
    by blast
  have len: "length ?sample = ?r" by (simp add: min.commute)
  have r': "min defaultTypeInferanceRows (length (Records c')) = ?r"
    unfolding c' by simp
  have t': "take ?r (Records c') = map (convertedRow hs1) ?sample"
    unfolding c' by (simp add: take_map min_def)
  from inferHeaders_stable [OF hs1 len w0]
  have "inferColumnTypes c' = Some c'"
    unfolding inferColumnTypes_def Let_def r' t' by (simp add: c')
  moreover have "convertRecords (Headers c') (Records c') = Some (Records c')"
    using w1 unfolding c'
    by (simp add: convertRecords_eq wide_convertedRow convertedRow_idem comp_def)
  ultimately show ?thesis by (simp add: ConvertColumnTypes_def)
qed

lemma parses:
  "ParseFloat ''1'' = Some (Float64 0x3FF0000000000000)"
  "ParseFloat ''2'' = Some (Float64 0x4000000000000000)"
  "ParseFloat ''1.5'' = Some (Float64 0x3FF8000000000000)"
  "ParseFloat ''-3'' = Some (Float64 0xC008000000000000)"
  "ParseFloat ''7'' = Some (Float64 0x401C000000000000)"
  "ParseFloat ''x'' = None"
  "ParseInt ''x'' = None"
  by (simp_all add: float_eval int_eval)

theorem ConvertColumnTypes_idempotent_witness:
  "ConvertColumnTypes
     \<lparr>FilePath = ''t.csv'', Delimiter = 44,
      Headers = [\<lparr>Name = ''a'', Type = StringType\<rparr>, \<lparr>Name = ''b'', Type = StringType\<rparr>,
                 \<lparr>Name = ''c'', Type = StringType\<rparr>],
      Records = [[Text ''1'', Text ''x'', Text ''1.5''], [Text ''2'', Text ''7'', Text ''-3'']]\<rparr>
   = Some \<lparr>FilePath = ''t.csv'', Delimiter = 44,
      Headers = [\<lparr>Name = ''a'', Type = FloatType\<rparr>, \<lparr>Name = ''b'', Type = StringType\<rparr>,
                 \<lparr>Name = ''c'', Type = FloatType\<rparr>],
      Records = [[Float (Float64 0x3FF0000000000000), Text ''x'', Float (Float64 0x3FF8000000000000)],
                 [Float (Float64 0x4000000000000000), Text ''7'', Float (Float64 0xC008000000000000)]]\<rparr>
   \<and> ConvertColumnTypes
     \<lparr>FilePath = ''t.csv'', Delimiter = 44,
      Headers = [\<lparr>Name = ''a'', Type = FloatType\<rparr>, \<lparr>Name = ''b'', Type = StringType\<rparr>,
                 \<lparr>Name = ''c'', Type = FloatType\<rparr>],
      Records = [[Float (Float64 0x3FF0000000000000), Text ''x'', Float (Float64 0x3FF8000000000000)],
                 [Float (Float64 0x4000000000000000), Text ''7'', Float (Float64 0xC008000000000000)]]\<rparr>
   = Some \<lparr>FilePath = ''t.csv'', Delimiter = 44,
      Headers = [\<lparr>Name = ''a'', Type = FloatType\<rparr>, \<lparr>Name = ''b'', Type = StringType\<rparr>,
                 \<lparr>Name = ''c'', Type = FloatType\<rparr>],
      Records = [[Float (Float64 0x3FF0000000000000), Text ''x'', Float (Float64 0x3FF8000000000000)],
                 [Float (Float64 0x4000000000000000), Text ''7'', Float (Float64 0xC008000000000000)]]\<rparr>"
proof -
  have first: "ConvertColumnTypes
     \<lparr>FilePath = ''t.csv'', Delimiter = 44,
      Headers = [\<lparr>Name = ''a'', Type = StringType\<rparr>, \<lparr>Name = ''b'', Type = StringType\<rparr>,
                 \<lparr>Name = ''c'', Type = StringType\<rparr>],
      Records = [[Text ''1'', Text ''x'', Text ''1.5''], [Text ''2'', Text ''7'', Text ''-3'']]\<rparr>
   = Some \<lparr>FilePath = ''t.csv'', Delimiter = 44,
      Headers = [\<lparr>Name = ''a'', Type = FloatType\<rparr>, \<lparr>Name = ''b'', Type = StringType\<rparr>,
                 \<lparr>Name = ''c'', Type = FloatType\<rparr>],
      Records = [[Float (Float64 0x3FF0000000000000), Text ''x'', Float (Float64 0x3FF8000000000000)],
                 [Float (Float64 0x4000000000000000), Text ''7'', Float (Float64 0xC008000000000000)]]\<rparr>"
    by (simp add: ConvertColumnTypes_def inferColumnTypes_def defaultTypeInferanceRows_def
        convertCell_def parses)
  from ConvertColumnTypes_idempotent [OF first] first show ?thesis by simp
qed

section \<open>The coordinator: results\<close>

lemma launch_valid:
  "\<forall>p \<in> set ps. suffix ''.csv'' (TrimSpace p) \<Longrightarrow>
   launch ps acc = (acc @ map TrimSpace ps, None)"
  by (induction ps arbitrary: acc) auto

lemma launch_invalid:
  "\<forall>q \<in> set before. suffix ''.csv'' (TrimSpace q) \<Longrightarrow> \<not> suffix ''.csv'' (TrimSpace p) \<Longrightarrow>
   launch (before @ p # after) acc = (acc @ map TrimSpace before, Some InvalidInputFormat)"
  by (induction before arbitrary: acc) auto

lemma arrival_step:
  "xs \<noteq> [] \<Longrightarrow>
   arrival (k # ks) xs =
     xs ! (k mod length xs) # arrival ks (take (k mod length xs) xs @ drop (Suc (k mod length xs)) xs)"
  by (cases xs) (simp_all add: Let_def del: take_Suc_Cons drop_Suc_Cons nth_Cons_Suc)

lemma arrival_empty_schedule: "arrival [] xs = xs"
  by (cases xs) simp_all

lemma arrival_Nil: "arrival ks [] = []"
  by simp

lemma mset_arrival: "mset (arrival ks xs) = mset xs"
proof (induction ks arbitrary: xs)
  case Nil
  then show ?case by (simp add: arrival_empty_schedule)
next
  case (Cons k ks)
  show ?case
  proof (cases "xs = []")
    case True
    then show ?thesis by simp
  next
    case False
    let ?j = "k mod length xs"
    from False have j: "?j < length xs" by simp
    from id_take_nth_drop [OF j]
    have "mset xs = mset (take ?j xs @ xs ! ?j # drop (Suc ?j) xs)" by simp
    also have "\<dots> = add_mset (xs ! ?j) (mset (take ?j xs @ drop (Suc ?j) xs))" by simp
    finally show ?thesis by (simp add: arrival_step [OF False] Cons.IH)
  qed
qed

lemma arrival_map: "arrival ks (map f xs) = map f (arrival ks xs)"
proof (induction ks arbitrary: xs)
  case Nil
  then show ?case by (simp add: arrival_empty_schedule)
next
  case (Cons k ks)
  show ?case
  proof (cases "xs = []")
    case True
    then show ?thesis by simp
  next
    case False
    let ?j = "k mod length xs"
    from False have j: "?j < length xs" by simp
    from False have ne: "map f xs \<noteq> []" by simp
    have "take ?j (map f xs) @ drop (Suc ?j) (map f xs) = map f (take ?j xs @ drop (Suc ?j) xs)"
      by (simp add: take_map drop_map)
    then have "arrival ks (take ?j (map f xs) @ drop (Suc ?j) (map f xs))
        = map f (arrival ks (take ?j xs @ drop (Suc ?j) xs))"
      by (simp only: Cons.IH)
    with j show ?thesis
      by (simp add: arrival_step [OF False] arrival_step [OF ne])
  qed
qed

lemma arrival_complete: "mset ys = mset xs \<Longrightarrow> \<exists>ks. arrival ks xs = ys"
proof (induction ys arbitrary: xs)
  case Nil
  then show ?case by simp
next
  case (Cons y ys)
  from Cons.prems have "y \<in> set xs"
    by (metis list.set_intros(1) mset_eq_setD)
  then obtain j where j: "j < length xs" "xs ! j = y"
    by (auto simp: in_set_conv_nth)
  let ?xs' = "take j xs @ drop (Suc j) xs"
  from id_take_nth_drop [OF j(1)] j(2) have "mset xs = add_mset y (mset ?xs')"
    by (metis mset.simps(2) mset_append union_mset_add_mset_right)
  with Cons.prems have "mset ys = mset ?xs'" by simp
  from Cons.IH [OF this] obtain ks where ks: "arrival ks ?xs' = ys" by blast
  from j have ne: "xs \<noteq> []" by auto
  have "arrival (j # ks) xs = y # ys"
    using j ks by (simp add: arrival_step [OF ne])
  then show ?case by blast
qed

lemma drain_eq:
  "drain results errors files =
     (errors @ map projl (filter isl results), files @ map projr (filter (\<lambda>r. \<not> isl r) results))"
  by (induction results errors files rule: drain.induct) simp_all

lemma processFiles_valid:
  assumes "\<forall>p \<in> set filePaths. suffix ''.csv'' (TrimSpace p)"
  shows "processFiles w schedule filePaths delimiter =
     (let results = arrival schedule (map (\<lambda>p. worker w delimiter (TrimSpace p)) filePaths);
          errors = map projl (filter isl results);
          files = map projr (filter (\<lambda>r. \<not> isl r) results)
      in if errors \<noteq> []
         then \<lparr>started = map TrimSpace filePaths, handed = None,
               result = Inl (AggregatedReadError errors)\<rparr>
         else if files = []
         then \<lparr>started = map TrimSpace filePaths, handed = None, result = Inl NoValidSources\<rparr>
         else \<lparr>started = map TrimSpace filePaths, handed = Some files, result = Merge files\<rparr>)"
  by (simp add: processFiles_def launch_valid [OF assms] drain_eq Let_def comp_def)

lemma set_arrival: "set (arrival ks xs) = set xs"
  by (metis mset_arrival set_mset_mset)

lemma length_arrival: "length (arrival ks xs) = length xs"
  by (metis mset_arrival size_mset)

subsection \<open>A path that ends in \<^verbatim>\<open>.csv\<close> passes the extension test\<close>

lemma trailingSpace_csv:
  assumes "suffix ''.csv'' s"
  shows "trailingSpace s = 0"
proof -
  from assms obtain q where "s = q @ ''.csv''" by (auto simp: suffix_def)
  then show ?thesis
    by (simp add: trailingSpace_def spaceEncodings_def suffix_to_prefix)
qed

lemma spaceEncodings_no_dot: "e \<in> set spaceEncodings \<Longrightarrow> CHR ''.'' \<notin> set e"
  by (auto simp: spaceEncodings_def)

lemma leadingSpace_csv:
  assumes "suffix ''.csv'' s"
  shows "suffix ''.csv'' (drop (leadingSpace s) s)"
proof (cases "find (\<lambda>e. prefix e s) spaceEncodings")
  case None
  with assms show ?thesis by (simp add: leadingSpace_def)
next
  case (Some e)
  then have e: "e \<in> set spaceEncodings" and "prefix e s"
    by (auto simp: find_Some_iff)
  then obtain s' where s: "s = e @ s'" by (auto simp: prefix_def)
  from assms [unfolded s suffix_append]
  consider "suffix ''.csv'' s'" | xs where "''.csv'' = xs @ s'" "suffix xs e"
    by blast
  then have "suffix ''.csv'' s'"
  proof cases
    case 1
    then show ?thesis .
  next
    case 2
    show ?thesis
    proof (cases xs)
      case Nil
      with 2 show ?thesis by simp
    next
      case (Cons x xs')
      with 2(1) have "x = CHR ''.''" by simp
      with Cons 2(2) have "CHR ''.'' \<in> set e"
        by (auto simp: suffix_def)
      with spaceEncodings_no_dot [OF e] show ?thesis by simp
    qed
  qed
  with Some s show ?thesis by (simp add: leadingSpace_def)
qed

lemma TrimLeftSpace_csv: "suffix ''.csv'' s \<Longrightarrow> suffix ''.csv'' (TrimLeftSpace s)"
proof (induction s rule: TrimLeftSpace.induct)
  case (1 s)
  show ?case
  proof (cases "leadingSpace s = 0")
    case True
    with "1.prems" show ?thesis by (subst TrimLeftSpace.simps) simp
  next
    case False
    from "1.IH" [OF False leadingSpace_csv [OF "1.prems"]] False
    show ?thesis by (subst TrimLeftSpace.simps) simp
  qed
qed

lemma TrimSpace_csv: "suffix ''.csv'' s \<Longrightarrow> suffix ''.csv'' (TrimSpace s)"
proof -
  assume "suffix ''.csv'' s"
  then have l: "suffix ''.csv'' (TrimLeftSpace s)" by (rule TrimLeftSpace_csv)
  from trailingSpace_csv [OF l] have "TrimRightSpace (TrimLeftSpace s) = TrimLeftSpace s"
    by (subst TrimRightSpace.simps) simp
  with l show ?thesis by (simp add: TrimSpace_def)
qed

subsection \<open>Evaluation on concrete paths\<close>

lemma TrimLeftSpace_none: "leadingSpace s = 0 \<Longrightarrow> TrimLeftSpace s = s"
  by (subst TrimLeftSpace.simps) simp

lemma TrimLeftSpace_step:
  "leadingSpace s \<noteq> 0 \<Longrightarrow> TrimLeftSpace s = TrimLeftSpace (drop (leadingSpace s) s)"
  by (subst TrimLeftSpace.simps) simp

lemma TrimRightSpace_none: "trailingSpace s = 0 \<Longrightarrow> TrimRightSpace s = s"
  by (subst TrimRightSpace.simps) simp

lemma TrimRightSpace_step:
  "trailingSpace s \<noteq> 0 \<Longrightarrow>
   TrimRightSpace s = TrimRightSpace (take (length s - trailingSpace s) s)"
  by (subst TrimRightSpace.simps) simp

lemmas trim_eval = TrimSpace_def TrimLeftSpace_none TrimLeftSpace_step TrimRightSpace_none
  TrimRightSpace_step leadingSpace_def trailingSpace_def spaceEncodings_def suffix_to_prefix

lemmas read_eval = worker_def Read_def New_def zeroCSV_def WithFilePath_def WithDelimiter_def
  WithHeaders_def WithRecords_def

lemma trims:
  "TrimSpace ''a.csv'' = ''a.csv''" "TrimSpace ''b.csv'' = ''b.csv''"
  "TrimSpace ''a.csv '' = ''a.csv''" "TrimSpace ''b.txt'' = ''b.txt''"
  "TrimSpace ''x.csv'' = ''x.csv''" "TrimSpace ''y.csv'' = ''y.csv''"
  by (simp_all add: trim_eval)

lemma suffixes:
  "suffix ''.csv'' ''a.csv''" "suffix ''.csv'' ''b.csv''" "\<not> suffix ''.csv'' ''a.csv ''"
  "\<not> suffix ''.csv'' ''b.txt''" "suffix ''.csv'' ''x.csv''" "suffix ''.csv'' ''y.csv''"
  by (simp_all add: suffix_to_prefix)

lemma workers:
  "worker twoFiles 44 ''a.csv'' = Inr \<lparr>FilePath = ''a.csv'', Delimiter = 44,
       Headers = [\<lparr>Name = ''h'', Type = StringType\<rparr>], Records = [[Text ''1'']]\<rparr>"
  "worker twoFiles 44 ''b.csv'' = Inr \<lparr>FilePath = ''b.csv'', Delimiter = 44,
       Headers = [\<lparr>Name = ''h'', Type = StringType\<rparr>], Records = [[Text ''2'']]\<rparr>"
  "worker twoFiles 44 ''x.csv'' = Inl (SourceUnavailable ''open x.csv: no such file or directory'')"
  "worker twoFiles 44 ''y.csv'' = Inl (SourceUnavailable ''open y.csv: no such file or directory'')"
  by (simp_all add: read_eval twoFiles_def)

subsection \<open>Invalid extensions\<close>

text \<open>
  Claim C3 states that a path list with a path of another extension makes \<^verbatim>\<open>processFiles\<close>
  fail with \<^verbatim>\<open>InvalidInputFormat\<close> before any worker is started and any source is read.
  The code returns that error and never calls \<^verbatim>\<open>Merge\<close>, but the test of the (trimmed)
  path stands inside the loop that starts the workers, and the loop returns from its
  middle: a worker has been started, and reads its source, for every path before the
  first one refused. The witness is the list \<^verbatim>\<open>["a.csv", "b.txt"]\<close>, for which the worker of
  \<^verbatim>\<open>a.csv\<close> is started; for \<^verbatim>\<open>["b.txt", "a.csv"]\<close> none is.
\<close>

theorem processFiles_invalid_extension:
  assumes "\<forall>q \<in> set before. suffix ''.csv'' (TrimSpace q)"
    and "\<not> suffix ''.csv'' (TrimSpace p)"
  shows "processFiles w schedule (before @ p # after) delimiter =
           \<lparr>started = map TrimSpace before, handed = None, result = Inl InvalidInputFormat\<rparr>"
  by (simp add: processFiles_def launch_invalid [OF assms])

theorem processFiles_invalid_extension_witness:
  "processFiles twoFiles [] [''a.csv'', ''b.txt''] 44 =
     \<lparr>started = [''a.csv''], handed = None, result = Inl InvalidInputFormat\<rparr>
   \<and> processFiles twoFiles [] [''b.txt'', ''a.csv''] 44 =
     \<lparr>started = [], handed = None, result = Inl InvalidInputFormat\<rparr>"
  using processFiles_invalid_extension [of "[''a.csv'']" "''b.txt''" twoFiles "[]" "[]" 44]
    processFiles_invalid_extension [of "[]" "''b.txt''" twoFiles "[]" "[''a.csv'']" 44]
  by (simp add: trims suffixes)

subsection \<open>The order of the tables handed to Merge\<close>

text \<open>
  Claim C4 as stated fails on the code: the tables are appended as the results arrive.
  When the worker of \<^verbatim>\<open>b.csv\<close> is received before the worker of \<^verbatim>\<open>a.csv\<close>, \<^verbatim>\<open>Merge\<close> gets
  the table of \<^verbatim>\<open>b.csv\<close> first, and the merged rows start with those of \<^verbatim>\<open>b.csv\<close>.
\<close>

theorem processFiles_arrival_order_counterexample:
  "processFiles twoFiles [1] [''a.csv'', ''b.csv''] 44 =
     \<lparr>started = [''a.csv'', ''b.csv''],
       handed = Some [\<lparr>FilePath = ''b.csv'', Delimiter = 44,
                       Headers = [\<lparr>Name = ''h'', Type = StringType\<rparr>], Records = [[Text ''2'']]\<rparr>,
                      \<lparr>FilePath = ''a.csv'', Delimiter = 44,
                       Headers = [\<lparr>Name = ''h'', Type = StringType\<rparr>], Records = [[Text ''1'']]\<rparr>],
       result = Inr \<lparr>FilePath = [], Delimiter = 44,
                     Headers = [\<lparr>Name = ''h'', Type = StringType\<rparr>],
                     Records = [[Text ''2''], [Text ''1'']]\<rparr>\<rparr>"
  by (simp add: processFiles_def trims suffixes workers New_def zeroCSV_def WithHeaders_def
      WithDelimiter_def WithRecords_def)

text \<open>
  Claim C4, amended. For a non-empty list of paths that all pass the extension test
  (among them every path that ends in \<^verbatim>\<open>.csv\<close>, by \<open>TrimSpace_csv\<close>) and whose reads all
  succeed, \<^verbatim>\<open>processFiles\<close> hands the parsed tables to \<^verbatim>\<open>Merge\<close> in the order
  in which the results arrive on the result channel and returns what \<^verbatim>\<open>Merge\<close> returns
  for them. That order is a permutation of the declared order; it is the declared order
  when the results arrive in the order the workers were started, and every permutation
  of the declared order arrives under some schedule.
\<close>

theorem processFiles_arrival_order:
  assumes "\<forall>p \<in> set filePaths. suffix ''.csv'' (TrimSpace p)"
    and "\<forall>p \<in> set filePaths. \<not> isl (worker w delimiter (TrimSpace p))"
    and "filePaths \<noteq> []"
  shows "handed (processFiles w schedule filePaths delimiter)
           = Some (arrival schedule (map (\<lambda>p. projr (worker w delimiter (TrimSpace p))) filePaths))
         \<and> result (processFiles w schedule filePaths delimiter)
           = Merge (arrival schedule (map (\<lambda>p. projr (worker w delimiter (TrimSpace p))) filePaths))
         \<and> mset (arrival schedule (map (\<lambda>p. projr (worker w delimiter (TrimSpace p))) filePaths))
           = mset (map (\<lambda>p. projr (worker w delimiter (TrimSpace p))) filePaths)
         \<and> handed (processFiles w [] filePaths delimiter)
           = Some (map (\<lambda>p. projr (worker w delimiter (TrimSpace p))) filePaths)
         \<and> (\<forall>tables. mset tables = mset (map (\<lambda>p. projr (worker w delimiter (TrimSpace p))) filePaths)
              \<longrightarrow> (\<exists>schedule'. handed (processFiles w schedule' filePaths delimiter) = Some tables))"
proof -
  let ?xs = "map (\<lambda>p. worker w delimiter (TrimSpace p)) filePaths"
  let ?ts = "map (\<lambda>p. projr (worker w delimiter (TrimSpace p))) filePaths"
  have ts: "?ts = map projr ?xs" by (simp add: comp_def)
  have h: "handed (processFiles w ks filePaths delimiter) = Some (arrival ks ?ts)
         \<and> result (processFiles w ks filePaths delimiter) = Merge (arrival ks ?ts)" for ks
  proof -
    let ?rs = "arrival ks ?xs"
    from assms(2) have "\<forall>r \<in> set ?xs. \<not> isl r" by auto
    then have all: "\<forall>r \<in> set ?rs. \<not> isl r" by (simp only: set_arrival)
    then have e: "filter isl ?rs = []" by (simp add: filter_empty_conv)
    from all have f: "filter (\<lambda>r. \<not> isl r) ?rs = ?rs" by (simp add: filter_id_conv)
    from assms(3) have ne: "map projr ?rs \<noteq> []"
      using length_arrival [of ks ?xs] by (metis length_0_conv length_map)
    have "map projr ?rs = arrival ks ?ts" unfolding ts by (simp only: arrival_map)
    with e f ne show ?thesis
      by (simp add: processFiles_valid [OF assms(1)] Let_def)
  qed
  have "\<exists>schedule'. handed (processFiles w schedule' filePaths delimiter) = Some tables"
    if "mset tables = mset ?ts" for tables
  proof -
    from arrival_complete [OF that] obtain ks where "arrival ks ?ts = tables" by blast
    with h [of ks] show ?thesis by blast
  qed
  with h [of schedule] h [of "[]"] show ?thesis
    by (simp add: mset_arrival arrival_empty_schedule)
qed

theorem processFiles_arrival_order_witness:
  "handed (processFiles twoFiles [1] [''a.csv'', ''b.csv''] 44) =
     Some [\<lparr>FilePath = ''b.csv'', Delimiter = 44,
            Headers = [\<lparr>Name = ''h'', Type = StringType\<rparr>], Records = [[Text ''2'']]\<rparr>,
           \<lparr>FilePath = ''a.csv'', Delimiter = 44,
            Headers = [\<lparr>Name = ''h'', Type = StringType\<rparr>], Records = [[Text ''1'']]\<rparr>]
   \<and> handed (processFiles twoFiles [] [''a.csv'', ''b.csv''] 44) =
     Some [\<lparr>FilePath = ''a.csv'', Delimiter = 44,
            Headers = [\<lparr>Name = ''h'', Type = StringType\<rparr>], Records = [[Text ''1'']]\<rparr>,
           \<lparr>FilePath = ''b.csv'', Delimiter = 44,
            Headers = [\<lparr>Name = ''h'', Type = StringType\<rparr>], Records = [[Text ''2'']]\<rparr>]"
  using processFiles_arrival_order [of "[''a.csv'', ''b.csv'']" twoFiles 44 "[1]"]
  by (simp add: trims suffixes workers)

subsection \<open>Aggregated read errors\<close>

text \<open>
  Claim C5. For a list of paths that all pass the extension test (each, trimmed, ends in
  \<^verbatim>\<open>.csv\<close>, as by \<open>TrimSpace_csv\<close> every path that ends in \<^verbatim>\<open>.csv\<close> does) of which at least
  one read fails, \<^verbatim>\<open>processFiles\<close> returns
  \<^verbatim>\<open>AggregatedReadError\<close> with the errors of all failed workers, in order of arrival: as a
  multiset, exactly the errors of the workers that failed. \<^verbatim>\<open>Merge\<close> is not called, and
  the tables read successfully are dropped.
\<close>

theorem processFiles_aggregates_errors:
  assumes "\<forall>p \<in> set filePaths. suffix ''.csv'' (TrimSpace p)"
    and "\<exists>p \<in> set filePaths. isl (worker w delimiter (TrimSpace p))"
  shows "\<exists>errors.
           result (processFiles w schedule filePaths delimiter) = Inl (AggregatedReadError errors)
           \<and> errors = map projl (filter isl
                 (arrival schedule (map (\<lambda>p. worker w delimiter (TrimSpace p)) filePaths)))
           \<and> mset errors = mset (map projl (filter isl
                 (map (\<lambda>p. worker w delimiter (TrimSpace p)) filePaths)))
           \<and> handed (processFiles w schedule filePaths delimiter) = None"
proof -
  let ?xs = "map (\<lambda>p. worker w delimiter (TrimSpace p)) filePaths"
  let ?rs = "arrival schedule ?xs"
  from assms(2) have "\<exists>r \<in> set ?xs. isl r" by auto
  then have "\<exists>r \<in> set ?rs. isl r" by (simp only: set_arrival)
  then have ne: "filter isl ?rs \<noteq> []" by (simp add: filter_empty_conv)
  have "mset (filter isl ?rs) = mset (filter isl ?xs)"
    by (simp only: mset_filter mset_arrival)
  then have "mset (map projl (filter isl ?rs)) = mset (map projl (filter isl ?xs))"
    by (simp only: mset_map)
  with ne show ?thesis
    by (simp add: processFiles_valid [OF assms(1)] Let_def)
qed

theorem processFiles_aggregates_errors_witness:
  "result (processFiles twoFiles [2] [''x.csv'', ''a.csv'', ''y.csv''] 44) =
     Inl (AggregatedReadError [SourceUnavailable ''open y.csv: no such file or directory'',
                               SourceUnavailable ''open x.csv: no such file or directory''])
   \<and> handed (processFiles twoFiles [2] [''x.csv'', ''a.csv'', ''y.csv''] 44) = None"
  using processFiles_aggregates_errors [of "[''x.csv'', ''a.csv'', ''y.csv'']" twoFiles 44 "[2]"]
  by (simp add: trims suffixes workers)

end
